theory Spec2Isabelle
  imports Complex_Main
begin

section \<open>Tensors\<close>

text \<open>
  The notebook computes with torch tensors. A tensor is modelled by its shape and its
  entries, the entries nested along the shape (one \<open>Node\<close> level for each dimension).
  Floating-point entries are modelled as real numbers: rounding, overflow and NaN are
  outside this model, and \<open>exp\<close> is the real exponential. For the two properties that
  depend on the rounding, the range of the kernel and its monotonicity in a lengthscale,
  the kernel is modelled a second time in single precision (\<open>forward32\<close> below).
\<close>

datatype 'a nd = Leaf 'a | Node "'a nd list"

record 'a tensor =
  shape :: "nat list"
  data :: "'a nd"

text \<open>\<open>build s f\<close> lays the entries \<open>f idx\<close> out along the shape \<open>s\<close>.\<close>

primrec build :: "nat list \<Rightarrow> (nat list \<Rightarrow> 'a) \<Rightarrow> 'a nd" where
  "build [] f = Leaf (f [])"
| "build (n # s) f = Node (map (\<lambda>i. build s (\<lambda>idx. f (i # idx))) [0..<n])"

text \<open>Reading the entry that a full index names. The operations below only read inside the shape.\<close>

fun get :: "nat list \<Rightarrow> 'a nd \<Rightarrow> 'a" where
  "get [] (Leaf a) = a"
| "get (i # idx) (Node ts) = get idx (ts ! i)"
| "get [] (Node ts) = undefined"
| "get (i # idx) (Leaf a) = undefined"

definition mk :: "nat list \<Rightarrow> (nat list \<Rightarrow> 'a) \<Rightarrow> 'a tensor" where
  "mk s f = \<lparr>shape = s, data = build s f\<rparr>"

definition entry :: "'a tensor \<Rightarrow> nat list \<Rightarrow> 'a" where
  "entry t idx = get idx (data t)"

text \<open>An index is inside a shape when it has one coordinate per dimension, each in range.\<close>

definition inside :: "nat list \<Rightarrow> nat list \<Rightarrow> bool" where
  "inside idx s = list_all2 (<) idx s"

text \<open>\<open>torch.tensor\<close> of a flat list, of a list of rows, and of a list of matrices.\<close>

definition tensor1 :: "'a list \<Rightarrow> 'a tensor" where
  "tensor1 xs = \<lparr>shape = [length xs], data = Node (map Leaf xs)\<rparr>"

definition tensor2 :: "'a list list \<Rightarrow> 'a tensor" where
  "tensor2 rows =
     \<lparr>shape = [length rows, (case rows of [] \<Rightarrow> 0 | r # _ \<Rightarrow> length r)],
      data = Node (map (\<lambda>r. Node (map Leaf r)) rows)\<rparr>"

definition tensor3 :: "'a list list list \<Rightarrow> 'a tensor" where
  "tensor3 ms =
     \<lparr>shape = [length ms, (case ms of [] \<Rightarrow> 0 | m # _ \<Rightarrow> length m),
               (case ms of [] \<Rightarrow> 0 | m # _ \<Rightarrow> (case m of [] \<Rightarrow> 0 | r # _ \<Rightarrow> length r))],
      data = Node (map (\<lambda>m. Node (map (\<lambda>r. Node (map Leaf r)) m)) ms)\<rparr>"

section \<open>Errors and Python values\<close>

text \<open>
  Every exception the code can raise is a value. \<open>IndexError\<close> is raised by indexing
  (a Python list, a shape tuple, a tensor) and by a dimension argument out of range;
  \<open>RuntimeError\<close> is what torch raises when two shapes do not broadcast;
  \<open>NameError\<close> is Python's error for a name that is not bound.
\<close>

datatype error = IndexError | RuntimeError | NameError string

text \<open>\<open>res\<close> starts as the Python float \<open>1.\<close> and becomes a tensor in the first iteration.\<close>

datatype pyval = PyFloat real | Tensor "real tensor"

definition bind :: "error + 'a \<Rightarrow> ('a \<Rightarrow> error + 'b) \<Rightarrow> error + 'b" where
  "bind m f = (case m of Inl e \<Rightarrow> Inl e | Inr v \<Rightarrow> f v)"

section \<open>The torch operations that \<open>forward\<close> uses\<close>

text \<open>A dimension argument \<open>d\<close> of Python, negative from the end, over \<open>n\<close> positions.\<close>

definition wrap_dim :: "int \<Rightarrow> nat \<Rightarrow> error + nat" where
  "wrap_dim d n =
     (if d < - int n \<or> int n \<le> d then Inl IndexError
      else Inr (nat (if d < 0 then d + int n else d)))"

text \<open>\<open>x.shape[d]\<close>: indexing the shape tuple.\<close>

definition shape_at :: "'a tensor \<Rightarrow> int \<Rightarrow> error + nat" where
  "shape_at t d = bind (wrap_dim d (length (shape t))) (\<lambda>p. Inr (shape t ! p))"

text \<open>\<open>x.unsqueeze(d)\<close>: a new dimension of size 1 at one of \<open>rank + 1\<close> positions.\<close>

definition unsqueeze :: "'a tensor \<Rightarrow> int \<Rightarrow> error + 'a tensor" where
  "unsqueeze t d =
     bind (wrap_dim d (length (shape t) + 1)) (\<lambda>p.
       Inr (mk (take p (shape t) @ [1] @ drop p (shape t))
              (\<lambda>idx. entry t (take p idx @ drop (Suc p) idx))))"

text \<open>\<open>x.transpose(d0, d1)\<close>.\<close>

definition transpose_t :: "'a tensor \<Rightarrow> int \<Rightarrow> int \<Rightarrow> error + 'a tensor" where
  "transpose_t t d0 d1 =
     bind (wrap_dim d0 (length (shape t))) (\<lambda>p.
     bind (wrap_dim d1 (length (shape t))) (\<lambda>q.
       Inr (mk ((shape t)[p := shape t ! q, q := shape t ! p])
              (\<lambda>idx. entry t (idx[p := idx ! q, q := idx ! p])))))"

text \<open>\<open>x[..., i]\<close> for an index \<open>i\<close> from \<open>range\<close>: the last dimension is selected.\<close>

definition select_last :: "'a tensor \<Rightarrow> nat \<Rightarrow> error + 'a tensor" where
  "select_last t i =
     (if shape t = [] then Inl IndexError
      else if last (shape t) \<le> i then Inl IndexError
      else Inr (mk (butlast (shape t)) (\<lambda>idx. entry t (idx @ [i]))))"

text \<open>\<open>x[..., None]\<close>: a new last dimension of size 1.\<close>

definition index_none_last :: "'a tensor \<Rightarrow> 'a tensor" where
  "index_none_last t = mk (shape t @ [1]) (\<lambda>idx. entry t (butlast idx))"

text \<open>\<open>x[0, ...]\<close>: the first slice along the first dimension.\<close>

definition select_first0 :: "'a tensor \<Rightarrow> error + 'a tensor" where
  "select_first0 t =
     (case shape t of
        [] \<Rightarrow> Inl IndexError
      | n # s \<Rightarrow> if n = 0 then Inl IndexError else Inr (mk s (\<lambda>idx. entry t (0 # idx))))"

text \<open>\<open>x[:, 0, ...]\<close>: the first slice along the second dimension.\<close>

definition select_second0 :: "'a tensor \<Rightarrow> error + 'a tensor" where
  "select_second0 t =
     (case shape t of
        [] \<Rightarrow> Inl IndexError
      | [n] \<Rightarrow> Inl IndexError
      | n # m # s \<Rightarrow>
          if m = 0 then Inl IndexError
          else Inr (mk (n # s) (\<lambda>idx. entry t (hd idx # 0 # tl idx))))"

text \<open>
  Broadcasting: shapes are aligned at the last dimension; two sizes are compatible when
  they are equal or one of them is 1, and a missing dimension counts as 1.
\<close>

definition bdim :: "nat \<Rightarrow> nat \<Rightarrow> nat option" where
  "bdim x y = (if x = 1 then Some y else if y = 1 \<or> x = y then Some x else None)"

fun bshape_rev :: "nat list \<Rightarrow> nat list \<Rightarrow> nat list option" where
  "bshape_rev [] ys = Some ys"
| "bshape_rev (x # xs) [] = Some (x # xs)"
| "bshape_rev (x # xs) (y # ys) =
     (case bdim x y of
        None \<Rightarrow> None
      | Some z \<Rightarrow> (case bshape_rev xs ys of None \<Rightarrow> None | Some zs \<Rightarrow> Some (z # zs)))"

definition broadcast_shapes :: "nat list \<Rightarrow> nat list \<Rightarrow> nat list option" where
  "broadcast_shapes s1 s2 = map_option rev (bshape_rev (rev s1) (rev s2))"

text \<open>The entry of an operand of shape \<open>s\<close> that the result's index \<open>idx\<close> reads.\<close>

definition bindex :: "nat list \<Rightarrow> nat list \<Rightarrow> nat list" where
  "bindex s idx =
     map2 (\<lambda>n k. if n = 1 then 0 else k) s (drop (length idx - length s) idx)"

definition binop :: "('a \<Rightarrow> 'b \<Rightarrow> 'c) \<Rightarrow> 'a tensor \<Rightarrow> 'b tensor \<Rightarrow> error + 'c tensor" where
  "binop f a b =
     (case broadcast_shapes (shape a) (shape b) of
        None \<Rightarrow> Inl RuntimeError
      | Some s \<Rightarrow>
          Inr (mk s (\<lambda>idx. f (entry a (bindex (shape a) idx)) (entry b (bindex (shape b) idx)))))"

text \<open>An elementwise operation with a Python scalar, or a function such as \<open>torch.exp\<close>.\<close>

definition tmap :: "('a \<Rightarrow> 'b) \<Rightarrow> 'a tensor \<Rightarrow> 'b tensor" where
  "tmap f t = mk (shape t) (\<lambda>idx. f (entry t idx))"

text \<open>\<open>a != b\<close> on tensors.\<close>

definition ne :: "'a tensor \<Rightarrow> 'a tensor \<Rightarrow> error + bool tensor" where
  "ne a b = binop (\<lambda>x y. x \<noteq> y) a b"

text \<open>\<open>a / b\<close> on tensors.\<close>

definition tdiv :: "real tensor \<Rightarrow> real tensor \<Rightarrow> error + real tensor" where
  "tdiv a b = binop (\<lambda>x y. x / y) a b"

text \<open>\<open>a ** b\<close> with a boolean exponent: \<open>True\<close> counts as 1 and \<open>False\<close> as 0.\<close>

definition tpow :: "real tensor \<Rightarrow> bool tensor \<Rightarrow> error + real tensor" where
  "tpow a b = binop (\<lambda>x e. x ^ (if e then 1 else 0)) a b"

text \<open>
  \<open>res *= t\<close>. On the Python float the statement rebinds \<open>res\<close> to the product, a new
  tensor of the shape of \<open>t\<close>. On a tensor it multiplies in place, which torch refuses
  when broadcasting would change the shape of \<open>res\<close>.
\<close>

fun imul :: "pyval \<Rightarrow> real tensor \<Rightarrow> error + pyval" where
  "imul (PyFloat r) t = Inr (Tensor (tmap (\<lambda>x. r * x) t))"
| "imul (Tensor a) t =
     (case broadcast_shapes (shape a) (shape t) of
        None \<Rightarrow> Inl RuntimeError
      | Some s \<Rightarrow>
          if s \<noteq> shape a then Inl RuntimeError
          else Inr (Tensor (mk s (\<lambda>idx. entry a (bindex (shape a) idx) * entry t (bindex (shape t) idx)))))"

text \<open>\<open>cats[i]\<close> on a Python list, for an index from \<open>range\<close>.\<close>

definition list_get :: "'a list \<Rightarrow> nat \<Rightarrow> error + 'a" where
  "list_get xs i = (if i < length xs then Inr (xs ! i) else Inl IndexError)"

text \<open>\<open>for i in range(n): res = body(i, res)\<close>, stopping at the first exception.\<close>

fun for_range :: "(nat \<Rightarrow> 'a \<Rightarrow> error + 'a) \<Rightarrow> nat list \<Rightarrow> 'a \<Rightarrow> error + 'a" where
  "for_range body [] res = Inr res"
| "for_range body (i # is) res = bind (body i res) (for_range body is)"

section \<open>The kernel\<close>

text \<open>
  \<open>self.cats\<close> is the list of category counts given to the constructor, and
  \<open>self.lengthscale\<close> is the parameter that the base class of gpytorch registers
  (\<open>has_lengthscale = True\<close>); the optimiser owns its value, so it is a field here.
  The docstring allows \<open>categories\<close> to be a tensor or a list; it is a Python list of
  integers here, one count per dimension, so that \<open>cats[i]\<close> is a Python integer.
\<close>

record DiffusionKernel =
  cats :: "int list"
  lengthscale :: "real tensor"

text \<open>
  \<open>__init__\<close>. The name in the \<open>raise\<close> statement is spelt \<open>RunTimeError\<close>, which is
  bound nowhere in the notebook, so evaluating it raises Python's \<open>NameError\<close>. The
  second argument stands for the lengthscale that \<open>super().__init__(**kwargs)\<close> creates.
\<close>

definition init :: "int list option \<Rightarrow> real tensor \<Rightarrow> error + DiffusionKernel" where
  "init categories ls =
     (case categories of
        None \<Rightarrow> Inl (NameError ''RunTimeError'')
      | Some c \<Rightarrow> Inr \<lparr>cats = c, lengthscale = ls\<rparr>)"

text \<open>
  The per-dimension factor of the loop body,
  \<open>(1 - exp(-lengthscale[..., i] * cats[i])) / (1 + (cats[i] - 1) * exp(-lengthscale[..., i] * cats[i]))\<close>,
  in Python's order of evaluation.
\<close>

definition base_tensor :: "DiffusionKernel \<Rightarrow> nat \<Rightarrow> error + real tensor" where
  "base_tensor self i =
     bind (select_last (lengthscale self) i) (\<lambda>l1.
     bind (list_get (cats self) i) (\<lambda>c1.
     bind (list_get (cats self) i) (\<lambda>c2.
     bind (select_last (lengthscale self) i) (\<lambda>l2.
     bind (list_get (cats self) i) (\<lambda>c3.
       tdiv (tmap (\<lambda>x. 1 - x) (tmap exp (tmap (\<lambda>x. x * real_of_int c1) (tmap uminus l1))))
            (tmap (\<lambda>x. 1 + x)
               (tmap (\<lambda>x. real_of_int (c2 - 1) * x)
                  (tmap exp (tmap (\<lambda>x. x * real_of_int c3) (tmap uminus l2))))))))))"

text \<open>The exponent of the \<open>diag\<close> branch: \<open>(x1[..., i] != x2[..., i])[:, 0, ...]\<close>.\<close>

definition diag_indicator :: "'a tensor \<Rightarrow> 'a tensor \<Rightarrow> nat \<Rightarrow> error + bool tensor" where
  "diag_indicator x1 x2 i =
     bind (select_last x1 i) (\<lambda>a.
     bind (select_last x2 i) (\<lambda>b.
     bind (ne a b) select_second0))"

text \<open>
  The exponent of the full branch:
  \<open>(x1[..., i].unsqueeze(-2)[..., None] != x2[..., i].unsqueeze(-2))[0, ...]\<close>.
\<close>

definition full_indicator :: "'a tensor \<Rightarrow> 'a tensor \<Rightarrow> nat \<Rightarrow> error + bool tensor" where
  "full_indicator x1 x2 i =
     bind (select_last x1 i) (\<lambda>a.
     bind (unsqueeze a (- 2)) (\<lambda>a'.
     bind (select_last x2 i) (\<lambda>b.
     bind (unsqueeze b (- 2)) (\<lambda>b'.
     bind (ne (index_none_last a') b') select_first0))))"

text \<open>One iteration: \<open>res *= base.unsqueeze(-1) ** indicator\<close>.\<close>

definition step :: "DiffusionKernel \<Rightarrow> (nat \<Rightarrow> error + bool tensor) \<Rightarrow> nat \<Rightarrow> pyval \<Rightarrow> error + pyval" where
  "step self indicator i res =
     bind (base_tensor self i) (\<lambda>b.
     bind (unsqueeze b (- 1)) (\<lambda>b'.
     bind (indicator i) (\<lambda>e.
     bind (tpow b' e) (imul res))))"

text \<open>
  \<open>forward\<close>. The two copies of the notebook differ in the bound of both loops only:
  \<open>x1.shape[-1]\<close> in the first and \<open>x1.shape[~1]\<close>, which is \<open>x1.shape[-2]\<close>, in the
  second; \<open>bound\<close> is that index.
\<close>

definition forward_copy ::
  "int \<Rightarrow> DiffusionKernel \<Rightarrow> 'a tensor \<Rightarrow> 'a tensor \<Rightarrow> bool \<Rightarrow> bool \<Rightarrow> error + pyval" where
  "forward_copy bound self x1 x2 diag last_dim_is_batch =
     bind (if last_dim_is_batch
           then bind (transpose_t x1 (- 1) (- 2)) (\<lambda>t1.
                bind (unsqueeze t1 (- 1)) (\<lambda>x1'.
                bind (transpose_t x2 (- 1) (- 2)) (\<lambda>t2.
                bind (unsqueeze t2 (- 1)) (\<lambda>x2'. Inr (x1', x2')))))
           else Inr (x1, x2))
       (\<lambda>(x1, x2).
          if diag
          then bind (shape_at x1 bound) (\<lambda>n.
                 for_range (step self (diag_indicator x1 x2)) [0..<n] (PyFloat 1))
          else bind (shape_at x1 bound) (\<lambda>n.
                 for_range (step self (full_indicator x1 x2)) [0..<n] (PyFloat 1)))"

definition forward ::
  "DiffusionKernel \<Rightarrow> 'a tensor \<Rightarrow> 'a tensor \<Rightarrow> bool \<Rightarrow> bool \<Rightarrow> error + pyval" where
  "forward = forward_copy (- 1)"

definition forward2 ::
  "DiffusionKernel \<Rightarrow> 'a tensor \<Rightarrow> 'a tensor \<Rightarrow> bool \<Rightarrow> bool \<Rightarrow> error + pyval" where
  "forward2 = forward_copy (- 2)"

section \<open>The kernel as the specification words it\<close>

text \<open>
  The per-dimension decay \<open>base_i = (1 - exp(-l_i * c_i)) / (1 + (c_i - 1) * exp(-l_i * c_i))\<close>
  and the per-dimension similarity \<open>sim_i(a, b) = base_i ** indicator(a \<noteq> b)\<close> of the
  specification. The theorems below compare what \<open>forward\<close> computes with these.
\<close>

definition spec_base :: "real \<Rightarrow> int \<Rightarrow> real" where
  "spec_base l c =
     (1 - exp (- l * real_of_int c)) / (1 + (real_of_int c - 1) * exp (- l * real_of_int c))"

definition spec_sim :: "real \<Rightarrow> int \<Rightarrow> 'a \<Rightarrow> 'a \<Rightarrow> real" where
  "spec_sim l c a b = spec_base l c ^ (if a \<noteq> b then 1 else 0)"

text \<open>
  The lengthscale of dimension \<open>i\<close>. The parameter is a vector of shape \<open>[d]\<close>, or has the
  shape \<open>[1, d]\<close> that gpytorch gives it; the leading coordinates are 0 then.
\<close>

definition lengthscale_entry :: "real tensor \<Rightarrow> nat \<Rightarrow> real" where
  "lengthscale_entry ls i = entry ls (replicate (length (shape ls) - 1) 0 @ [i])"

text \<open>The factor of dimension \<open>i\<close> for the pair of points that the index \<open>[j, k]\<close> names.\<close>

definition factor :: "DiffusionKernel \<Rightarrow> 'a tensor \<Rightarrow> 'a tensor \<Rightarrow> nat \<Rightarrow> nat list \<Rightarrow> real" where
  "factor self x1 x2 i idx =
     spec_sim (lengthscale_entry (lengthscale self) i) (cats self ! i)
       (entry x1 [idx ! 0, i]) (entry x2 [idx ! 1, i])"

text \<open>
  \<open>result[j, k]\<close> and \<open>result[k]\<close> on what \<open>forward\<close> returned: \<open>None\<close> when the call
  raised, returned the Python float, or the index is outside the shape.
\<close>

definition matrix_entry :: "error + pyval \<Rightarrow> nat \<Rightarrow> nat \<Rightarrow> real option" where
  "matrix_entry r j k =
     (case r of
        Inr (Tensor t) \<Rightarrow> if inside [j, k] (shape t) then Some (entry t [j, k]) else None
      | Inr (PyFloat x) \<Rightarrow> None
      | Inl e \<Rightarrow> None)"

definition vector_entry :: "error + pyval \<Rightarrow> nat \<Rightarrow> real option" where
  "vector_entry r k =
     (case r of
        Inr (Tensor t) \<Rightarrow> if inside [k] (shape t) then Some (entry t [k]) else None
      | Inr (PyFloat x) \<Rightarrow> None
      | Inl e \<Rightarrow> None)"

text \<open>
  The scenario of the specification: \<open>cats = [2, 2]\<close>, \<open>lengthscale = [1.0, 1.0]\<close> and the
  points \<open>a = [0, 0]\<close>, \<open>b = [0, 1]\<close>, \<open>c = [1, 1]\<close>, as one batch.
\<close>

definition scenario_kernel :: DiffusionKernel where
  "scenario_kernel = \<lparr>cats = [2, 2], lengthscale = tensor1 [1, 1]\<rparr>"

definition scenario_points :: "int tensor" where
  "scenario_points = tensor2 [[0, 0], [0, 1], [1, 1]]"

section \<open>Single-precision arithmetic\<close>

text \<open>
  torch's default dtype is float32: the lengthscale is a float32 tensor, and every tensor
  operation of \<open>forward\<close> rounds its result to float32. Whether a bound or a comparison of
  the kernel values is strict depends on this rounding, so the kernel is modelled a second
  time, with the rounding written out.

  A float32 value is a real number \<open>n * 2 ^ e\<close> with \<open>\<bar>n\<bar> < 2 ^ 24\<close> and \<open>e \<ge> -149\<close>.
  \<open>rne\<close> rounds a real number to the nearest integer, a tie to the even one; \<open>fexp32 x\<close> is
  the exponent of the binade of \<open>x\<close> (that of the subnormal numbers below \<open>2 ^ -126\<close>), and
  \<open>ulp32 x\<close> the distance of two neighbouring float32 values there. \<open>round32 x\<close> is the
  float32 value nearest to \<open>x\<close>, a tie to the even significand, which is the rounding of
  IEEE 754 that torch uses. Overflow to infinity and NaN are not modelled: \<open>round32\<close> has
  no largest value.
\<close>

definition rne :: "real \<Rightarrow> int" where
  "rne m =
     (let f = \<lfloor>m\<rfloor>; r = m - of_int f
      in if r < 1 / 2 then f else if 1 / 2 < r then f + 1 else if even f then f else f + 1)"

definition fexp32 :: "real \<Rightarrow> int" where
  "fexp32 x = max \<lfloor>log 2 \<bar>x\<bar>\<rfloor> (- 126)"

definition ulp32 :: "real \<Rightarrow> real" where
  "ulp32 x = 2 powr real_of_int (fexp32 x - 23)"

definition round32 :: "real \<Rightarrow> real" where
  "round32 x = real_of_int (rne (x / ulp32 x)) * ulp32 x"

section \<open>The kernel in single precision\<close>

text \<open>
  The factor of dimension \<open>i\<close> as \<open>base_tensor\<close> has it, each operation rounded: the product
  with the category count, \<open>torch.exp\<close>, the subtraction from 1, the product with
  \<open>cats[i] - 1\<close>, the addition to 1 and the division. The negation of the lengthscale is
  exact. A Python int that meets a float32 tensor is converted to float32, which is the
  int itself up to \<open>2 ^ 24\<close>; \<open>cats[i] - 1\<close> is computed on Python ints before.
  \<open>torch.exp\<close> is modelled as the correctly rounded exponential.
\<close>

definition tdiv32 :: "real tensor \<Rightarrow> real tensor \<Rightarrow> error + real tensor" where
  "tdiv32 a b = binop (\<lambda>x y. round32 (x / y)) a b"

definition base_tensor32 :: "DiffusionKernel \<Rightarrow> nat \<Rightarrow> error + real tensor" where
  "base_tensor32 self i =
     bind (select_last (lengthscale self) i) (\<lambda>l1.
     bind (list_get (cats self) i) (\<lambda>c1.
     bind (list_get (cats self) i) (\<lambda>c2.
     bind (select_last (lengthscale self) i) (\<lambda>l2.
     bind (list_get (cats self) i) (\<lambda>c3.
       tdiv32
         (tmap (\<lambda>x. round32 (1 - x))
            (tmap (\<lambda>x. round32 (exp x))
               (tmap (\<lambda>x. round32 (x * round32 (real_of_int c1))) (tmap uminus l1))))
         (tmap (\<lambda>x. round32 (1 + x))
            (tmap (\<lambda>x. round32 (round32 (real_of_int (c2 - 1)) * x))
               (tmap (\<lambda>x. round32 (exp x))
                  (tmap (\<lambda>x. round32 (x * round32 (real_of_int c3))) (tmap uminus l2))))))))))"

text \<open>
  \<open>res *= t\<close> with the product rounded. The power with a boolean exponent is exact (the
  base itself or 1), so \<open>tpow\<close> serves as it is.
\<close>

fun imul32 :: "pyval \<Rightarrow> real tensor \<Rightarrow> error + pyval" where
  "imul32 (PyFloat r) t = Inr (Tensor (tmap (\<lambda>x. round32 (r * x)) t))"
| "imul32 (Tensor a) t =
     (case broadcast_shapes (shape a) (shape t) of
        None \<Rightarrow> Inl RuntimeError
      | Some s \<Rightarrow>
          if s \<noteq> shape a then Inl RuntimeError
          else Inr (Tensor (mk s (\<lambda>idx.
                 round32 (entry a (bindex (shape a) idx) * entry t (bindex (shape t) idx))))))"

definition step32 ::
  "DiffusionKernel \<Rightarrow> (nat \<Rightarrow> error + bool tensor) \<Rightarrow> nat \<Rightarrow> pyval \<Rightarrow> error + pyval" where
  "step32 self indicator i res =
     bind (base_tensor32 self i) (\<lambda>b.
     bind (unsqueeze b (- 1)) (\<lambda>b'.
     bind (indicator i) (\<lambda>e.
     bind (tpow b' e) (imul32 res))))"

text \<open>\<open>forward\<close> (the first copy of the notebook, loop bound \<open>x1.shape[-1]\<close>) in float32.\<close>

definition forward32 ::
  "DiffusionKernel \<Rightarrow> 'a tensor \<Rightarrow> 'a tensor \<Rightarrow> bool \<Rightarrow> bool \<Rightarrow> error + pyval" where
  "forward32 self x1 x2 diag last_dim_is_batch =
     bind (if last_dim_is_batch
           then bind (transpose_t x1 (- 1) (- 2)) (\<lambda>t1.
                bind (unsqueeze t1 (- 1)) (\<lambda>x1'.
                bind (transpose_t x2 (- 1) (- 2)) (\<lambda>t2.
                bind (unsqueeze t2 (- 1)) (\<lambda>x2'. Inr (x1', x2')))))
           else Inr (x1, x2))
       (\<lambda>(x1, x2).
          if diag
          then bind (shape_at x1 (- 1)) (\<lambda>n.
                 for_range (step32 self (diag_indicator x1 x2)) [0..<n] (PyFloat 1))
          else bind (shape_at x1 (- 1)) (\<lambda>n.
                 for_range (step32 self (full_indicator x1 x2)) [0..<n] (PyFloat 1)))"

text \<open>
  The numbers that the float32 tensors hold, for stating the results: \<open>base32 l c\<close> is the
  entry of \<open>base_tensor32\<close> for the lengthscale \<open>l\<close> and the category count \<open>c\<close>,
  \<open>factor32\<close> the factor of dimension \<open>i\<close> for the pair of points that the index \<open>[j, k]\<close>
  names, and \<open>fprod32 f k\<close> the product of \<open>f 0\<close>, ..., \<open>f (k - 1)\<close> as the loop accumulates
  it, from 1 and rounded at each step.
\<close>

definition base32 :: "real \<Rightarrow> int \<Rightarrow> real" where
  "base32 l c =
     round32
       (round32 (1 - round32 (exp (round32 (- l * round32 (real_of_int c)))))
        / round32 (1 + round32 (round32 (real_of_int (c - 1))
                                * round32 (exp (round32 (- l * round32 (real_of_int c)))))))"

definition factor32 :: "DiffusionKernel \<Rightarrow> 'a tensor \<Rightarrow> 'a tensor \<Rightarrow> nat \<Rightarrow> nat list \<Rightarrow> real" where
  "factor32 self x1 x2 i idx =
     base32 (lengthscale_entry (lengthscale self) i) (cats self ! i)
       ^ (if entry x1 [idx ! 0, i] \<noteq> entry x2 [idx ! 1, i] then 1 else 0)"

fun fprod32 :: "(nat \<Rightarrow> real) \<Rightarrow> nat \<Rightarrow> real" where
  "fprod32 f 0 = 1"
| "fprod32 f (Suc k) = round32 (fprod32 f k * f k)"

section \<open>Basic facts about tensors\<close>

lemma get_build: "list_all2 (<) idx s \<Longrightarrow> get idx (build s f) = f idx"
proof (induction s arbitrary: idx f)
  case Nil
  then show ?case by simp
next
  case (Cons n s)
  then obtain i rest where idx: "idx = i # rest" and i: "i < n" and rest: "list_all2 (<) rest s"
    by (auto simp: list_all2_Cons2)
  from Cons.IH [OF rest] i show ?case
    by (simp add: idx)
qed

lemma entry_mk: "inside idx s \<Longrightarrow> entry (mk s f) idx = f idx"
  by (simp add: entry_def mk_def inside_def get_build)

lemma shape_mk [simp]: "shape (mk s f) = s"
  by (simp add: mk_def)

lemma build_cong:
  "(\<And>idx. list_all2 (<) idx s \<Longrightarrow> f idx = g idx) \<Longrightarrow> build s f = build s g"
proof (induction s arbitrary: f g)
  case Nil
  then show ?case by simp
next
  case (Cons n s)
  have "build s (\<lambda>idx. f (i # idx)) = build s (\<lambda>idx. g (i # idx))" if "i < n" for i
    using that by (intro Cons.IH Cons.prems) simp
  then show ?case by simp
qed

lemma mk_cong:
  assumes "\<And>idx. inside idx s \<Longrightarrow> f idx = g idx"
  shows "mk s f = mk s g"
proof -
  have "build s f = build s g"
    by (rule build_cong) (simp add: assms inside_def)
  then show ?thesis
    by (simp add: mk_def)
qed

lemma inside_Nil [simp]: "inside idx [] = (idx = [])"
  by (simp add: inside_def)

lemma inside_Cons [simp]: "inside idx (n # s) = (\<exists>i rest. idx = i # rest \<and> i < n \<and> inside rest s)"
  by (simp add: inside_def list_all2_Cons2)

lemma bdim_left1 [simp]: "bdim (Suc 0) y = Some y"
  by (simp add: bdim_def)

lemma bdim_right1 [simp]: "bdim x (Suc 0) = Some x"
  by (simp add: bdim_def)

lemma bdim_same [simp]: "bdim x x = Some x"
  by (simp add: bdim_def)

lemma bcoord [simp]: "k < n \<Longrightarrow> (if n = Suc 0 then 0 else k) = k"
  by auto

lemma full_indicator_2d:
  assumes "shape x1 = [n1, d1]" "shape x2 = [n2, d2]" "i < d1" "i < d2"
  shows "full_indicator x1 x2 i =
           Inr (mk [n1, n2] (\<lambda>idx. entry x1 [idx ! 0, i] \<noteq> entry x2 [idx ! 1, i]))"
  using assms
  apply (simp add: full_indicator_def select_last_def bind_def unsqueeze_def wrap_dim_def
      index_none_last_def ne_def binop_def broadcast_shapes_def select_first0_def)
  apply (rule mk_cong)
  apply (auto simp: entry_mk bindex_def)
  done

lemma base_tensor_unsqueeze:
  assumes "shape (lengthscale self) = [m] \<or> shape (lengthscale self) = [1, m]"
    "i < m" "i < length (cats self)"
  shows "bind (base_tensor self i) (\<lambda>b. unsqueeze b (- 1)) =
           Inr (mk (replicate (length (shape (lengthscale self))) 1)
                  (\<lambda>idx. spec_base (lengthscale_entry (lengthscale self) i) (cats self ! i)))"
  using assms(1)
proof
  assume s: "shape (lengthscale self) = [m]"
  show ?thesis using assms(2,3)
  apply (simp add: s base_tensor_def select_last_def list_get_def bind_def tmap_def tdiv_def binop_def
      broadcast_shapes_def unsqueeze_def wrap_dim_def)
  apply (rule mk_cong)
    apply (auto simp: entry_mk bindex_def spec_base_def lengthscale_entry_def s)
    done
next
  assume s: "shape (lengthscale self) = [1, m]"
  show ?thesis using assms(2,3)
  apply (simp add: s base_tensor_def select_last_def list_get_def bind_def tmap_def tdiv_def binop_def
      broadcast_shapes_def unsqueeze_def wrap_dim_def)
  apply (rule mk_cong)
    apply (auto simp: entry_mk bindex_def spec_base_def lengthscale_entry_def s)
    done
qed


lemma bind_Inr [simp]: "bind (Inr v) f = f v"
  by (simp add: bind_def)

lemma bind_Inl [simp]: "bind (Inl e) f = Inl e"
  by (simp add: bind_def)

lemma bind_eq_Inr: "bind m f = Inr y \<longleftrightarrow> (\<exists>v. m = Inr v \<and> f v = Inr y)"
  by (cases m) simp_all

lemma for_range_append:
  "for_range body (xs @ ys) res = bind (for_range body xs res) (for_range body ys)"
  by (induction xs arbitrary: res) (simp_all add: bind_def split: sum.splits)

lemma step_full_2d:
  assumes ls: "shape (lengthscale self) = [m] \<or> shape (lengthscale self) = [1, m]"
    and x1: "shape x1 = [n1, d1]" and x2: "shape x2 = [n2, d2]"
    and i: "i < d1" "i < d2" "i < m" "i < length (cats self)"
  shows "step self (full_indicator x1 x2) i res =
           imul res (mk [n1, n2] (factor self x1 x2 i))"
proof -
  from base_tensor_unsqueeze [OF ls i(3,4)]
  obtain b where b: "base_tensor self i = Inr b"
    and b': "unsqueeze b (- 1) =
           Inr (mk (replicate (length (shape (lengthscale self))) 1)
                  (\<lambda>idx. spec_base (lengthscale_entry (lengthscale self) i) (cats self ! i)))"
    by (auto simp: bind_eq_Inr)
  have pow: "tpow (mk (replicate (length (shape (lengthscale self))) 1)
                  (\<lambda>idx. spec_base (lengthscale_entry (lengthscale self) i) (cats self ! i)))
               (mk [n1, n2] (\<lambda>idx. entry x1 [idx ! 0, i] \<noteq> entry x2 [idx ! 1, i]))
             = Inr (mk [n1, n2] (factor self x1 x2 i))"
    using ls
  proof
    assume s: "shape (lengthscale self) = [m]"
    show ?thesis
      apply (simp add: s tpow_def binop_def broadcast_shapes_def)
      apply (rule mk_cong)
      apply (auto simp: entry_mk bindex_def factor_def spec_sim_def)
      done
  next
    assume s: "shape (lengthscale self) = [1, m]"
    show ?thesis
      apply (simp add: s tpow_def binop_def broadcast_shapes_def)
      apply (rule mk_cong)
      apply (auto simp: entry_mk bindex_def factor_def spec_sim_def)
      done
  qed
  show ?thesis
    by (simp only: step_def b b' full_indicator_2d [OF x1 x2 i(1,2)] pow bind_Inr)
qed

lemma tmap_mult_one: "tmap ((*) (1::real)) (mk s f) = mk s f"
  by (simp add: tmap_def) (rule mk_cong, simp add: entry_mk)

lemma imul_next_2d:
  "imul (Tensor (mk [n1, n2] f)) (mk [n1, n2] g) = Inr (Tensor (mk [n1, n2] (\<lambda>idx. f idx * g idx)))"
  apply (simp add: broadcast_shapes_def)
  apply (rule mk_cong)
  apply (auto simp: entry_mk bindex_def)
  done

lemma loop_full_2d:
  assumes ls: "shape (lengthscale self) = [m] \<or> shape (lengthscale self) = [1, m]"
    and x1: "shape x1 = [n1, d1]" and x2: "shape x2 = [n2, d2]"
    and k: "k \<le> d1" "k \<le> d2" "k \<le> m" "k \<le> length (cats self)"
  shows "for_range (step self (full_indicator x1 x2)) [0..<k] (PyFloat 1) =
           Inr (if k = 0 then PyFloat 1
                else Tensor (mk [n1, n2] (\<lambda>idx. \<Prod>i<k. factor self x1 x2 i idx)))"
  using k
proof (induction k)
  case 0
  then show ?case by simp
next
  case (Suc k)
  have st: "step self (full_indicator x1 x2) k res = imul res (mk [n1, n2] (factor self x1 x2 k))"
    for res
    using Suc.prems by (intro step_full_2d [OF ls x1 x2]) simp_all
  from Suc have IH: "for_range (step self (full_indicator x1 x2)) [0..<k] (PyFloat 1) =
           Inr (if k = 0 then PyFloat 1
                else Tensor (mk [n1, n2] (\<lambda>idx. \<Prod>i<k. factor self x1 x2 i idx)))"
    by simp
  show ?case
  proof (cases "k = 0")
    case True
    with st [of "PyFloat 1"] show ?thesis
      by (simp add: tmap_mult_one)
  next
    case False
    then show ?thesis
      by (simp add: for_range_append IH st imul_next_2d del: imul.simps)
  qed
qed


lemma forward_full_2d:
  assumes ls: "shape (lengthscale self) = [m] \<or> shape (lengthscale self) = [1, m]"
    and x1: "shape x1 = [n1, d1]" and x2: "shape x2 = [n2, d2]"
    and d: "0 < d1" "d1 \<le> d2" "d1 \<le> m" "d1 \<le> length (cats self)"
  shows "forward self x1 x2 False False =
           Inr (Tensor (mk [n1, n2] (\<lambda>idx. \<Prod>i<d1. factor self x1 x2 i idx)))"
  using d loop_full_2d [OF ls x1 x2, of d1]
  by (simp add: forward_def forward_copy_def shape_at_def wrap_dim_def x1)

section \<open>The full matrix on two-dimensional batches\<close>

text \<open>
  C1. For a category vector of \<open>d \<ge> 1\<close> entries \<open>c_i \<ge> 2\<close>, a lengthscale of \<open>d\<close> strictly
  positive entries and two batches \<open>x1\<close> (\<open>n1 \<times> d\<close>) and \<open>x2\<close> (\<open>n2 \<times> d\<close>),
  \<open>forward(x1, x2, diag=False)\<close> returns an \<open>n1 \<times> n2\<close> matrix whose entry \<open>(j, k)\<close> is the
  product over \<open>i < d\<close> of \<open>base_i\<close> raised to the indicator of \<open>x1[j, i] \<noteq> x2[k, i]\<close>.
  The entries of the points may be any values: that they are valid category indices is
  not needed. The lengthscale may have the shape \<open>[d]\<close> or \<open>[1, d]\<close>.
\<close>

theorem full_matrix_entries:
  assumes "length (cats self) = d" and "1 \<le> d" and "\<forall>c\<in>set (cats self). 2 \<le> c"
    and "shape (lengthscale self) = [d] \<or> shape (lengthscale self) = [1, d]"
    and "\<forall>i<d. 0 < lengthscale_entry (lengthscale self) i"
    and "shape x1 = [n1, d]" and "shape x2 = [n2, d]"
  shows "\<exists>K. forward self x1 x2 False False = Inr (Tensor K) \<and> shape K = [n1, n2] \<and>
           (\<forall>j<n1. \<forall>k<n2. entry K [j, k] =
              (\<Prod>i<d. spec_base (lengthscale_entry (lengthscale self) i) (cats self ! i)
                         ^ (if entry x1 [j, i] \<noteq> entry x2 [k, i] then 1 else 0)))"
proof -
  have "forward self x1 x2 False False =
          Inr (Tensor (mk [n1, n2] (\<lambda>idx. \<Prod>i<d. factor self x1 x2 i idx)))"
    using assms(1,2) by (intro forward_full_2d [OF assms(4) assms(6) assms(7)]) simp_all
  then show ?thesis
    by (simp add: entry_mk factor_def spec_sim_def)
qed

theorem full_matrix_entries_witness:
  "matrix_entry (forward scenario_kernel scenario_points scenario_points False False) 0 2
     = Some (spec_base 1 2 * spec_base 1 2)"
  using full_matrix_entries [of scenario_kernel 2 scenario_points 3 scenario_points 3]
  apply (simp add: scenario_kernel_def scenario_points_def tensor1_def tensor2_def
      lengthscale_entry_def entry_def matrix_entry_def)
  apply (auto simp: entry_def numeral_2_eq_2 numeral_3_eq_3 less_Suc_eq lessThan_Suc)
  done

text \<open>
  C10. When \<open>x1\<close> and \<open>x2\<close> share a trailing dimension \<open>d'\<close> with \<open>1 \<le> d' < len(cats)\<close>
  and the lengthscale has at least \<open>d'\<close> entries, \<open>forward\<close> (first copy, \<open>diag=False\<close>)
  raises nothing and returns the product over the first \<open>d'\<close> dimensions only: the loop
  bound is \<open>x1.shape[-1]\<close>. The remaining entries of \<open>cats\<close> are never read: any list of
  category counts with the same first \<open>d'\<close> entries gives the same result.
\<close>

theorem fewer_dimensions_no_error:
  assumes "shape x1 = [n1, d']" and "shape x2 = [n2, d']"
    and "1 \<le> d'" and "d' < length (cats self)"
    and "shape (lengthscale self) = [m] \<or> shape (lengthscale self) = [1, m]" and "d' \<le> m"
  shows "(\<exists>K. forward self x1 x2 False False = Inr (Tensor K) \<and> shape K = [n1, n2] \<and>
            (\<forall>j<n1. \<forall>k<n2. entry K [j, k] =
               (\<Prod>i<d'. spec_base (lengthscale_entry (lengthscale self) i) (cats self ! i)
                          ^ (if entry x1 [j, i] \<noteq> entry x2 [k, i] then 1 else 0)))) \<and>
         (\<forall>cs. take d' cs = take d' (cats self) \<longrightarrow>
            forward (self\<lparr>cats := cs\<rparr>) x1 x2 False False = forward self x1 x2 False False)"
proof -
  have fw: "forward self x1 x2 False False =
          Inr (Tensor (mk [n1, n2] (\<lambda>idx. \<Prod>i<d'. factor self x1 x2 i idx)))"
    using assms(3,4,6) by (intro forward_full_2d [OF assms(5) assms(1) assms(2)]) simp_all
  have "forward (self\<lparr>cats := cs\<rparr>) x1 x2 False False = forward self x1 x2 False False"
    if cs: "take d' cs = take d' (cats self)" for cs
  proof -
    have "length (take d' cs) = length (take d' (cats self))"
      using cs by simp
    then have len: "d' \<le> length cs"
      using assms(4) by simp
    have ls': "shape (lengthscale (self\<lparr>cats := cs\<rparr>)) = [m] \<or>
               shape (lengthscale (self\<lparr>cats := cs\<rparr>)) = [1, m]"
      using assms(5) by simp
    have nth: "cs ! i = cats self ! i" if "i < d'" for i
    proof -
      have "cs ! i = take d' cs ! i" using that by simp
      also have "\<dots> = take d' (cats self) ! i" by (simp only: cs)
      also have "\<dots> = cats self ! i" using that by simp
      finally show ?thesis .
    qed
    have "forward (self\<lparr>cats := cs\<rparr>) x1 x2 False False =
          Inr (Tensor (mk [n1, n2] (\<lambda>idx. \<Prod>i<d'. factor (self\<lparr>cats := cs\<rparr>) x1 x2 i idx)))"
      using assms(3,6) len by (intro forward_full_2d [OF ls' assms(1) assms(2)]) simp_all
    also have "(\<lambda>idx. \<Prod>i<d'. factor (self\<lparr>cats := cs\<rparr>) x1 x2 i idx) =
               (\<lambda>idx. \<Prod>i<d'. factor self x1 x2 i idx)"
      by (rule ext, rule prod.cong) (simp_all add: factor_def nth)
    finally show ?thesis by (simp only: fw)
  qed
  then show ?thesis
    by (simp add: fw entry_mk factor_def spec_sim_def)
qed

theorem fewer_dimensions_no_error_witness:
  "matrix_entry (forward \<lparr>cats = [2, 3, 5], lengthscale = tensor1 [1, 1, 1]\<rparr>
       (tensor2 [[0::int]]) (tensor2 [[1]]) False False) 0 0 = Some (spec_base 1 2) \<and>
   forward \<lparr>cats = [2, 7], lengthscale = tensor1 [1, 1, 1]\<rparr>
       (tensor2 [[0::int]]) (tensor2 [[1]]) False False =
   forward \<lparr>cats = [2, 3, 5], lengthscale = tensor1 [1, 1, 1]\<rparr>
       (tensor2 [[0::int]]) (tensor2 [[1]]) False False"
proof -
  let ?k = "\<lparr>cats = [2, 3, 5], lengthscale = tensor1 [1, 1, 1]\<rparr>"
  let ?x1 = "tensor2 [[0::int]]" and ?x2 = "tensor2 [[1::int]]"
  have x1: "shape ?x1 = [1, 1]" and x2: "shape ?x2 = [1, 1]"
    by (simp_all add: tensor2_def)
  have ls: "shape (lengthscale ?k) = [3] \<or> shape (lengthscale ?k) = [1, 3]"
    by (simp add: tensor1_def)
  note th = fewer_dimensions_no_error [OF x1 x2 _ _ ls]
  have th': "(\<exists>K. forward ?k ?x1 ?x2 False False = Inr (Tensor K) \<and> shape K = [1, 1] \<and>
            (\<forall>j<1. \<forall>k<1. entry K [j, k] =
               (\<Prod>i<1. spec_base (lengthscale_entry (lengthscale ?k) i) (cats ?k ! i)
                          ^ (if entry ?x1 [j, i] \<noteq> entry ?x2 [k, i] then 1 else 0)))) \<and>
         (\<forall>cs. take 1 cs = take 1 (cats ?k) \<longrightarrow>
            forward (?k\<lparr>cats := cs\<rparr>) ?x1 ?x2 False False = forward ?k ?x1 ?x2 False False)"
    by (rule th) simp_all
  from th' [THEN conjunct1] obtain K where K: "forward ?k ?x1 ?x2 False False = Inr (Tensor K)"
    and sK: "shape K = [1, 1]"
    and eK: "entry K [0, 0] =
               (\<Prod>i<1. spec_base (lengthscale_entry (lengthscale ?k) i) (cats ?k ! i)
                          ^ (if entry ?x1 [0, i] \<noteq> entry ?x2 [0, i] then 1 else 0))"
    by auto
  have "entry K [0, 0] = spec_base 1 2"
    by (subst eK) (simp add: lengthscale_entry_def tensor1_def tensor2_def entry_def)
  then have first: "matrix_entry (forward ?k ?x1 ?x2 False False) 0 0 = Some (spec_base 1 2)"
    by (simp add: K sK matrix_entry_def)
  have "take 1 [2, 7] = take 1 (cats ?k) \<longrightarrow>
            forward (?k\<lparr>cats := [2, 7]\<rparr>) ?x1 ?x2 False False = forward ?k ?x1 ?x2 False False"
    by (rule th' [THEN conjunct2, THEN spec])
  then have second: "forward \<lparr>cats = [2, 7], lengthscale = tensor1 [1, 1, 1]\<rparr> ?x1 ?x2 False False
      = forward ?k ?x1 ?x2 False False"
    by simp
  from first second show ?thesis by (rule conjI)
qed

section \<open>The range of the kernel in exact arithmetic\<close>

lemma spec_base_pos:
  assumes "0 < l" and "2 \<le> c"
  shows "0 < spec_base l c"
proof -
  have lc: "0 < l * real_of_int c" using assms by simp
  then have e: "exp (- l * real_of_int c) < 1" by simp
  have "0 < (real_of_int c - 1) * exp (- l * real_of_int c)" using assms by simp
  then have den: "0 < 1 + (real_of_int c - 1) * exp (- l * real_of_int c)" by simp
  from e den show ?thesis by (simp add: spec_base_def)
qed

lemma spec_base_less_one:
  assumes "0 < l" and "2 \<le> c"
  shows "spec_base l c < 1"
proof -
  have "0 < (real_of_int c - 1) * exp (- l * real_of_int c)" using assms by simp
  then have den: "0 < 1 + (real_of_int c - 1) * exp (- l * real_of_int c)" by simp
  have "0 < real_of_int c * exp (- l * real_of_int c)" using assms by simp
  then have "1 - exp (- l * real_of_int c) < 1 + (real_of_int c - 1) * exp (- l * real_of_int c)"
    by (simp add: algebra_simps)
  with den show ?thesis by (simp add: spec_base_def)
qed

lemma spec_sim_bounds:
  assumes "0 < l" and "2 \<le> c"
  shows "0 < spec_sim l c a b" and "spec_sim l c a b \<le> 1"
  using spec_base_pos [OF assms] spec_base_less_one [OF assms]
  by (simp_all add: spec_sim_def)

text \<open>
  In exact arithmetic, for \<open>d \<ge> 1\<close>, lengthscales \<open>l_i > 0\<close> and category counts
  \<open>c_i \<ge> 2\<close>, every per-dimension factor lies strictly between 0 and 1, and every entry
  of the matrix that \<open>forward(x1, x2, diag=False)\<close> returns on two-dimensional batches is
  greater than 0 and at most 1. Rounding loses the strictness: see the range in single
  precision below.
\<close>

lemma kernel_range_exact:
  assumes "length (cats self) = d" and "1 \<le> d" and "\<forall>c\<in>set (cats self). 2 \<le> c"
    and "shape (lengthscale self) = [d] \<or> shape (lengthscale self) = [1, d]"
    and "\<forall>i<d. 0 < lengthscale_entry (lengthscale self) i"
    and "shape x1 = [n1, d]" and "shape x2 = [n2, d]"
  shows "(\<forall>i<d. 0 < spec_base (lengthscale_entry (lengthscale self) i) (cats self ! i) \<and>
                 spec_base (lengthscale_entry (lengthscale self) i) (cats self ! i) < 1) \<and>
         (\<exists>K. forward self x1 x2 False False = Inr (Tensor K) \<and> shape K = [n1, n2] \<and>
              (\<forall>j<n1. \<forall>k<n2. 0 < entry K [j, k] \<and> entry K [j, k] \<le> 1))"
proof -
  have c: "2 \<le> cats self ! i" if "i < d" for i
    using that assms(1,3) by simp
  have l: "0 < lengthscale_entry (lengthscale self) i" if "i < d" for i
    using that assms(5) by simp
  have fw: "forward self x1 x2 False False =
          Inr (Tensor (mk [n1, n2] (\<lambda>idx. \<Prod>i<d. factor self x1 x2 i idx)))"
    using assms(1,2) by (intro forward_full_2d [OF assms(4) assms(6) assms(7)]) simp_all
  have pos: "0 < (\<Prod>i<d. factor self x1 x2 i idx)" for idx
    by (rule prod_pos) (simp add: factor_def spec_sim_bounds l c)
  have le: "(\<Prod>i<d. factor self x1 x2 i idx) \<le> 1" for idx
    by (rule prod_le_1) (simp add: factor_def spec_sim_bounds l c less_imp_le)
  show ?thesis
    by (simp add: fw entry_mk pos le spec_base_pos spec_base_less_one l c)
qed

section \<open>The diagonal branch on two-dimensional batches\<close>

text \<open>
  On a batch of shape \<open>[n, d]\<close> the comparison \<open>x1[..., i] != x2[..., i]\<close> has one
  dimension, so the index \<open>[:, 0, ...]\<close> that follows it raises \<open>IndexError\<close>; when the two
  batch sizes do not broadcast, the comparison itself raises \<open>RuntimeError\<close> before that.
\<close>

lemmas eval_defs = forward_def forward_copy_def tensor1_def tensor2_def tensor3_def shape_at_def
  wrap_dim_def bind_def step_def base_tensor_def select_last_def list_get_def tmap_def mk_def
  entry_def unsqueeze_def tdiv_def binop_def broadcast_shapes_def bdim_def bindex_def
  full_indicator_def diag_indicator_def ne_def index_none_last_def select_first0_def
  select_second0_def tpow_def

lemma diag_indicator_2d:
  assumes "shape x1 = [n1, d1]" and "shape x2 = [n2, d2]" and "i < d1" and "i < d2"
  shows "diag_indicator x1 x2 i =
           Inl (if bdim n1 n2 = None then RuntimeError else IndexError)"
  using assms
  by (cases "bdim n1 n2")
    (simp_all add: diag_indicator_def select_last_def ne_def binop_def broadcast_shapes_def
      select_second0_def)

lemma step_diag_2d:
  assumes ls: "shape (lengthscale self) = [m] \<or> shape (lengthscale self) = [1, m]"
    and x1: "shape x1 = [n1, d1]" and x2: "shape x2 = [n2, d2]"
    and i: "i < d1" "i < d2" "i < m" "i < length (cats self)"
  shows "step self (diag_indicator x1 x2) i res =
           Inl (if bdim n1 n2 = None then RuntimeError else IndexError)"
proof -
  from base_tensor_unsqueeze [OF ls i(3,4)]
  obtain b b' where b: "base_tensor self i = Inr b" and b': "unsqueeze b (- 1) = Inr b'"
    by (auto simp: bind_eq_Inr)
  show ?thesis
    by (simp only: step_def b b' diag_indicator_2d [OF x1 x2 i(1,2)] bind_Inr bind_Inl)
qed

lemma forward_diag_2d:
  assumes ls: "shape (lengthscale self) = [m] \<or> shape (lengthscale self) = [1, m]"
    and x1: "shape x1 = [n1, d1]" and x2: "shape x2 = [n2, d2]"
    and pos: "0 < d1" "0 < d2" "0 < m" "0 < length (cats self)"
  shows "forward self x1 x2 True False =
           Inl (if bdim n1 n2 = None then RuntimeError else IndexError)"
proof -
  have up: "[0..<d1] = 0 # [Suc 0..<d1]"
    using pos(1) by (simp add: upt_conv_Cons)
  have "forward self x1 x2 True False =
          for_range (step self (diag_indicator x1 x2)) [0..<d1] (PyFloat 1)"
    by (simp add: forward_def forward_copy_def shape_at_def wrap_dim_def x1)
  also have "\<dots> = Inl (if bdim n1 n2 = None then RuntimeError else IndexError)"
    by (simp only: up for_range.simps step_diag_2d [OF ls x1 x2 pos] bind_Inl)
  finally show ?thesis .
qed

lemma full_matrix_same_point:
  assumes ls: "shape (lengthscale self) = [m] \<or> shape (lengthscale self) = [1, m]"
    and x1: "shape x1 = [n1, d1]" and x2: "shape x2 = [n2, d2]"
    and d: "0 < d1" "d1 \<le> d2" "d1 \<le> m" "d1 \<le> length (cats self)"
    and j: "j < n1" and k: "k < n2"
    and same: "\<And>i. i < d1 \<Longrightarrow> entry x1 [j, i] = entry x2 [k, i]"
  shows "matrix_entry (forward self x1 x2 False False) j k = Some 1"
proof -
  have "(\<Prod>i<d1. factor self x1 x2 i [j, k]) = 1"
    by (rule prod.neutral) (simp add: factor_def spec_sim_def same)
  then show ?thesis
    using j k by (simp add: forward_full_2d [OF ls x1 x2 d] matrix_entry_def entry_mk)
qed

text \<open>
  C2. The claim is that \<open>forward(x1, x2, diag=True)[k]\<close> equals
  \<open>forward(x1, x2, diag=False)[k, k]\<close> for batches of the same number of points. The code
  does not do that: on the batch of the three points of the scenario against itself, the
  \<open>diag=True\<close> call raises \<open>IndexError\<close>, so it has no entry 1, while entry \<open>(1, 1)\<close> of the
  full matrix is 1.
\<close>

theorem diag_mode_raises:
  "forward scenario_kernel scenario_points scenario_points True False = Inl IndexError \<and>
   vector_entry (forward scenario_kernel scenario_points scenario_points True False) 1 = None \<and>
   matrix_entry (forward scenario_kernel scenario_points scenario_points False False) 1 1 = Some 1"
  by (simp add: scenario_kernel_def scenario_points_def vector_entry_def matrix_entry_def eval_defs)

text \<open>
  C5. The claim is that the kernel of a point with itself is exactly 1, in the entries
  \<open>(k, k)\<close> of \<open>forward(x, x, diag=False)\<close> and in every entry of
  \<open>forward(x, x, diag=True)\<close>. The first half holds (\<open>full_matrix_same_point\<close> above, for
  every pair of equal points). The second half fails on the code: for the single point
  \<open>[1, 2]\<close> the full matrix has the entry 1 and the \<open>diag=True\<close> call raises \<open>IndexError\<close>.
\<close>

theorem self_similarity_diag_mode_raises:
  "matrix_entry (forward \<lparr>cats = [2, 3], lengthscale = tensor1 [1 / 2, 2]\<rparr>
      (tensor2 [[1, 2 :: int]]) (tensor2 [[1, 2]]) False False) 0 0 = Some 1 \<and>
   forward \<lparr>cats = [2, 3], lengthscale = tensor1 [1 / 2, 2]\<rparr>
      (tensor2 [[1, 2 :: int]]) (tensor2 [[1, 2]]) True False = Inl IndexError"
  by (simp add: matrix_entry_def eval_defs)

section \<open>Shapes that do not match\<close>

lemma base_tensor_out_of_range:
  assumes "shape (lengthscale self) = [m] \<or> shape (lengthscale self) = [1, m]"
  shows "base_tensor self m = Inl IndexError"
  using assms by (auto simp: base_tensor_def select_last_def)

lemma forward_full_2d_too_wide:
  assumes ls: "shape (lengthscale self) = [m] \<or> shape (lengthscale self) = [1, m]"
    and x1: "shape x1 = [n1, d1]" and x2: "shape x2 = [n2, d2]"
    and d: "m < d1" "m \<le> d2" "m \<le> length (cats self)"
  shows "forward self x1 x2 False False = Inl IndexError"
proof -
  have "[0..<m + (d1 - m)] = [0..<m] @ [m..<m + (d1 - m)]"
    by (rule upt_add_eq_append) simp
  then have "[0..<d1] = [0..<m] @ [m..<d1]"
    using d(1) by simp
  also have "[m..<d1] = m # [Suc m..<d1]"
    using d(1) by (simp add: upt_conv_Cons)
  finally have up: "[0..<d1] = [0..<m] @ m # [Suc m..<d1]" .
  have first: "for_range (step self (full_indicator x1 x2)) [0..<m] (PyFloat 1) =
           Inr (if m = 0 then PyFloat 1
                else Tensor (mk [n1, n2] (\<lambda>idx. \<Prod>i<m. factor self x1 x2 i idx)))"
    using d by (intro loop_full_2d [OF ls x1 x2]) simp_all
  have st: "step self (full_indicator x1 x2) m res = Inl IndexError" for res
    by (simp only: step_def base_tensor_out_of_range [OF ls] bind_Inl)
  have "forward self x1 x2 False False =
          for_range (step self (full_indicator x1 x2)) [0..<d1] (PyFloat 1)"
    by (simp add: forward_def forward_copy_def shape_at_def wrap_dim_def x1)
  also have "\<dots> = Inl IndexError"
    by (simp only: up for_range_append first bind_Inr for_range.simps st bind_Inl)
  finally show ?thesis .
qed

lemma bdim_None: "bdim x y = None \<longleftrightarrow> x \<noteq> 1 \<and> y \<noteq> 1 \<and> x \<noteq> y"
  by (auto simp: bdim_def)

text \<open>
  C7, as the code has it. \<open>forward\<close> checks no shape. With \<open>cats\<close> and the lengthscale of
  \<open>d\<close> entries and two-dimensional batches of the same trailing dimension \<open>d1\<close>:
  when \<open>d1\<close> exceeds \<open>d\<close>, \<open>forward(x1, x2, diag=False)\<close> raises \<open>IndexError\<close> (the
  iteration \<open>i = d\<close> indexes the lengthscale out of range); and when \<open>diag=True\<close> is
  requested with batch sizes that differ and are both different from 1,
  \<open>forward\<close> raises torch's \<open>RuntimeError\<close> for shapes that do not broadcast.
\<close>

theorem shape_mismatch_errors:
  assumes "shape (lengthscale self) = [d] \<or> shape (lengthscale self) = [1, d]"
    and "length (cats self) = d"
    and "shape x1 = [n1, d1]" and "shape x2 = [n2, d1]"
  shows "(d < d1 \<longrightarrow> forward self x1 x2 False False = Inl IndexError) \<and>
         (0 < d \<and> 0 < d1 \<and> n1 \<noteq> n2 \<and> n1 \<noteq> 1 \<and> n2 \<noteq> 1 \<longrightarrow>
            forward self x1 x2 True False = Inl RuntimeError)"
proof (intro conjI impI)
  assume "d < d1"
  then show "forward self x1 x2 False False = Inl IndexError"
    using assms(2) by (intro forward_full_2d_too_wide [OF assms(1) assms(3) assms(4)]) simp_all
next
  assume a: "0 < d \<and> 0 < d1 \<and> n1 \<noteq> n2 \<and> n1 \<noteq> 1 \<and> n2 \<noteq> 1"
  then have "bdim n1 n2 = None"
    by (simp add: bdim_None)
  moreover have "forward self x1 x2 True False =
           Inl (if bdim n1 n2 = None then RuntimeError else IndexError)"
    using a assms(2) by (intro forward_diag_2d [OF assms(1) assms(3) assms(4)]) simp_all
  ultimately show "forward self x1 x2 True False = Inl RuntimeError"
    by simp
qed

theorem shape_mismatch_errors_witness:
  "forward scenario_kernel (tensor2 [[0, 1, 0 :: int]]) (tensor2 [[0, 1, 1]]) False False
     = Inl IndexError \<and>
   forward scenario_kernel (tensor2 [[0, 1 :: int], [1, 1]]) (tensor2 [[0, 1], [1, 1], [0, 0]])
     True False = Inl RuntimeError"
proof -
  have ls: "shape (lengthscale scenario_kernel) = [2] \<or> shape (lengthscale scenario_kernel) = [1, 2]"
    and len: "length (cats scenario_kernel) = 2"
    by (simp_all add: scenario_kernel_def tensor1_def)
  have a: "shape (tensor2 [[0, 1, 0 :: int]]) = [1, 3]" "shape (tensor2 [[0, 1, 1 :: int]]) = [1, 3]"
    by (simp_all add: tensor2_def)
  have b: "shape (tensor2 [[0, 1 :: int], [1, 1]]) = [2, 2]"
    "shape (tensor2 [[0, 1 :: int], [1, 1], [0, 0]]) = [3, 2]"
    by (simp_all add: tensor2_def)
  from shape_mismatch_errors [OF ls len a, THEN conjunct1]
    shape_mismatch_errors [OF ls len b, THEN conjunct2]
  show ?thesis by simp
qed

text \<open>
  C7, as the claim states it, fails: a trailing dimension of 1 against \<open>cats\<close> of length 2
  raises nothing and returns the matrix \<open>[[1.0]]\<close>, computed from the first dimension
  alone; and \<open>diag=True\<close> with one point against two points, in batches of shape
  \<open>[1, 1, 1]\<close> and \<open>[1, 2, 1]\<close>, raises nothing either and returns \<open>[1.0]\<close>.
\<close>

theorem shape_mismatch_counterexample:
  "length (cats scenario_kernel) = 2 \<and> shape (tensor2 [[0 :: int]]) = [1, 1] \<and>
   forward scenario_kernel (tensor2 [[0 :: int]]) (tensor2 [[0]]) False False
     = Inr (Tensor (tensor2 [[1]])) \<and>
   shape (tensor3 [[[0 :: int]]]) = [1, 1, 1] \<and> shape (tensor3 [[[0 :: int], [1]]]) = [1, 2, 1] \<and>
   forward scenario_kernel (tensor3 [[[0 :: int]]]) (tensor3 [[[0], [1]]]) True False
     = Inr (Tensor (tensor1 [1]))"
  by (simp add: scenario_kernel_def eval_defs)

section \<open>The constructor\<close>

text \<open>
  C8. The claim is that constructing the kernel with \<open>categories=None\<close> raises a
  configuration error at construction. The constructor does stop there, before the base
  class is initialised and before any kernel object exists, but what it raises is
  \<open>NameError\<close>: the \<open>raise\<close> statement names \<open>RunTimeError\<close>, which is not defined, so the
  intended error and its message never reach the caller.
\<close>

theorem init_without_categories:
  "init None ls = Inl (NameError ''RunTimeError'')"
  by (simp add: init_def)

section \<open>The scenario of the specification\<close>

text \<open>
  The value of \<open>exp(-2)\<close> to five decimal places, from the Taylor polynomial of degree 13
  and the remainder term.
\<close>

lemma exp_minus_two_bounds:
  "135335 / 1000000 < exp (- 2 :: real)" "exp (- 2 :: real) < 135337 / 1000000"
proof -
  obtain t :: real where t: "\<bar>t\<bar> \<le> \<bar>- 2\<bar>"
    and e: "exp (- 2) = (\<Sum>m<14. ((- 2) ^ m) / fact m) + (exp t / fact 14) * (- 2) ^ 14"
    using Maclaurin_exp_le [of "- 2" 14] by blast
  have S: "(\<Sum>m<14. ((- 2 :: real) ^ m) / fact m) = 117569 / 868725"
    by (simp add: eval_nat_numeral sum.lessThan_Suc)
  have e1: "exp (1::real) \<le> 3"
    using exp_bound [of 1] by simp
  have "exp t \<le> exp 2"
    using t by simp
  also have "exp (2::real) = exp 1 ^ 2"
    using exp_double [of 1] by simp
  also have "\<dots> \<le> 3 ^ 2"
    by (rule power_mono) (use e1 in simp_all)
  finally have et: "exp t \<le> 9"
    by simp
  have et0: "0 < exp t"
    by simp
  have R: "(exp t / fact 14) * (- 2) ^ 14 = exp t * (16384 / 87178291200)"
    by (simp add: eval_nat_numeral)
  have eq: "exp (- 2 :: real) = 117569 / 868725 + exp t * (16384 / 87178291200)"
    by (simp only: e S R)
  from eq et0 show "135335 / 1000000 < exp (- 2 :: real)"
    by linarith
  from eq et show "exp (- 2 :: real) < 135337 / 1000000"
    by linarith
qed

lemma scenario_base: "spec_base 1 2 = (1 - exp (- 2)) / (1 + exp (- 2))"
  by (simp add: spec_base_def)

lemma ratio_bounds:
  fixes x :: real
  assumes "135335 / 1000000 < x" and "x < 135337 / 1000000"
  shows "76159 / 100000 < (1 - x) / (1 + x)" "(1 - x) / (1 + x) < 7616 / 10000"
proof -
  have pos: "0 < 1 + x"
    using assms(1) by linarith
  have "76159 * (1 + x) < 100000 * (1 - x)"
    using assms(2) by argo
  then show "76159 / 100000 < (1 - x) / (1 + x)"
    using pos by (simp add: field_simps)
  have "10000 * (1 - x) < 7616 * (1 + x)"
    using assms(1) by argo
  then show "(1 - x) / (1 + x) < 7616 / 10000"
    using pos by (simp add: field_simps)
qed

lemma scenario_base_bounds:
  "76159 / 100000 < spec_base 1 2" "spec_base 1 2 < 7616 / 10000"
  using ratio_bounds [OF exp_minus_two_bounds] by (simp_all only: scenario_base)

lemma scenario_base_square_bounds:
  "58001 / 100000 < (spec_base 1 2)\<^sup>2" "(spec_base 1 2)\<^sup>2 < 58004 / 100000"
proof -
  have "(76159 / 100000 :: real)\<^sup>2 < (spec_base 1 2)\<^sup>2"
    by (rule power_strict_mono) (use scenario_base_bounds in simp_all)
  then show "58001 / 100000 < (spec_base 1 2)\<^sup>2"
    by (simp add: power2_eq_square)
  have "0 \<le> spec_base 1 2"
    using scenario_base_bounds(1) by simp
  then have "(spec_base 1 2)\<^sup>2 < (7616 / 10000 :: real)\<^sup>2"
    by (intro power_strict_mono) (use scenario_base_bounds in simp_all)
  then show "(spec_base 1 2)\<^sup>2 < 58004 / 100000"
    by (simp add: power2_eq_square)
qed

lemma scenario_matrix:
  "matrix_entry (forward scenario_kernel scenario_points scenario_points False False) 0 0 = Some 1"
  "matrix_entry (forward scenario_kernel scenario_points scenario_points False False) 0 1
     = Some (spec_base 1 2)"
  "matrix_entry (forward scenario_kernel scenario_points scenario_points False False) 0 2
     = Some ((spec_base 1 2)\<^sup>2)"
  by (simp_all add: scenario_kernel_def scenario_points_def matrix_entry_def spec_base_def
      power2_eq_square eval_defs)

text \<open>
  C3, as the code has it. With \<open>cats = [2, 2]\<close> and \<open>lengthscale = [1.0, 1.0]\<close> the decay
  is \<open>base = (1 - e^-2) / (1 + 1 * e^-2)\<close>, which is 0.7616 to four decimal places. For
  \<open>a = [0, 0]\<close>, \<open>b = [0, 1]\<close>, \<open>c = [1, 1]\<close> the matrix that \<open>forward\<close> returns has
  \<open>K(a, a) = 1\<close>, \<open>K(a, b) = base\<close> and \<open>K(a, c) = base\<^sup>2\<close>, which is 0.5800 to four
  decimal places.
\<close>

theorem scenario_values:
  "spec_base 1 2 = (1 - exp (- 2)) / (1 + 1 * exp (- 2)) \<and>
   \<bar>spec_base 1 2 - 7616 / 10000\<bar> \<le> 5 / 100000 \<and>
   matrix_entry (forward scenario_kernel scenario_points scenario_points False False) 0 0 = Some 1 \<and>
   matrix_entry (forward scenario_kernel scenario_points scenario_points False False) 0 1
     = Some (spec_base 1 2) \<and>
   matrix_entry (forward scenario_kernel scenario_points scenario_points False False) 0 2
     = Some ((spec_base 1 2)\<^sup>2) \<and>
   \<bar>(spec_base 1 2)\<^sup>2 - 5800 / 10000\<bar> \<le> 5 / 100000"
proof -
  have "\<bar>spec_base 1 2 - 7616 / 10000\<bar> \<le> 5 / 100000"
    using scenario_base_bounds by (simp add: abs_le_iff)
  moreover have "\<bar>(spec_base 1 2)\<^sup>2 - 5800 / 10000\<bar> \<le> 5 / 100000"
    using scenario_base_square_bounds by (simp add: abs_le_iff)
  moreover have "spec_base 1 2 = (1 - exp (- 2)) / (1 + 1 * exp (- 2))"
    by (simp add: scenario_base)
  ultimately show ?thesis
    by (simp only: scenario_matrix simp_thms)
qed

text \<open>
  C3, as the claim states it, fails: \<open>K(a, b)\<close> is the quotient
  \<open>(1 - e^-2) / (1 + e^-2)\<close>, and that number is further than 0.25 from 0.4621.
\<close>

theorem scenario_values_counterexample:
  "matrix_entry (forward scenario_kernel scenario_points scenario_points False False) 0 1
     = Some ((1 - exp (- 2)) / (1 + exp (- 2))) \<and>
   \<not> \<bar>(1 - exp (- 2)) / (1 + exp (- 2)) - 4621 / 10000\<bar> \<le> (1 / 4 :: real)"
proof -
  have "\<not> \<bar>spec_base 1 2 - 4621 / 10000\<bar> \<le> (1 / 4 :: real)"
    using scenario_base_bounds(1) by (simp add: abs_le_iff)
  then show ?thesis
    by (simp only: scenario_matrix(2) scenario_base simp_thms)
qed

section \<open>Batches of three dimensions\<close>

text \<open>
  On batches of shapes \<open>[b1, n1, d1]\<close> and \<open>[b2, n2, d2]\<close> the comparison of the full branch
  broadcasts to the shape \<open>[b1, b2, n1, n2]\<close>, and the index \<open>[0, ...]\<close> keeps the slice
  that belongs to the first batch element of \<open>x1\<close>.
\<close>

lemma full_indicator_3d:
  assumes "shape x1 = [b1, n1, d1]" and "shape x2 = [b2, n2, d2]"
    and "i < d1" and "i < d2" and "0 < b1"
  shows "full_indicator x1 x2 i =
           Inr (mk [b2, n1, n2] (\<lambda>idx. entry x1 [0, idx ! 1, i] \<noteq> entry x2 [idx ! 0, idx ! 2, i]))"
  using assms
  apply (simp add: full_indicator_def select_last_def bind_def unsqueeze_def wrap_dim_def
      index_none_last_def ne_def binop_def broadcast_shapes_def select_first0_def)
  apply (rule mk_cong)
  apply (auto simp: entry_mk bindex_def)
  done

lemma full_indicator_3d_errors:
  assumes "shape x1 = [b1, n1, d1]" and "shape x2 = [b2, n2, d2]"
    and "d1 \<le> i \<or> d2 \<le> i \<or> b1 = 0"
  shows "full_indicator x1 x2 i = Inl IndexError"
  using assms
  by (auto simp: full_indicator_def select_last_def bind_def unsqueeze_def wrap_dim_def
      index_none_last_def ne_def binop_def broadcast_shapes_def select_first0_def)

lemma full_indicator_first_slice:
  assumes x1: "shape x1 = [b1, n1, d1]" and x1': "shape x1' = [b1, n1, d1]"
    and x2: "shape x2 = [b2, n2, d2]"
    and agree: "\<And>j i. j < n1 \<Longrightarrow> i < d1 \<Longrightarrow> entry x1 [0, j, i] = entry x1' [0, j, i]"
  shows "full_indicator x1 x2 i = full_indicator x1' x2 i"
proof (cases "d1 \<le> i \<or> d2 \<le> i \<or> b1 = 0")
  case True
  then show ?thesis
    by (simp only: full_indicator_3d_errors [OF x1 x2] full_indicator_3d_errors [OF x1' x2])
next
  case False
  then have i: "i < d1" "i < d2" "0 < b1"
    by simp_all
  have "mk [b2, n1, n2] (\<lambda>idx. entry x1 [0, idx ! 1, i] \<noteq> entry x2 [idx ! 0, idx ! 2, i]) =
        mk [b2, n1, n2] (\<lambda>idx. entry x1' [0, idx ! 1, i] \<noteq> entry x2 [idx ! 0, idx ! 2, i])"
    by (rule mk_cong) (auto simp: agree i)
  then show ?thesis
    by (simp only: full_indicator_3d [OF x1 x2 i] full_indicator_3d [OF x1' x2 i])
qed

text \<open>
  C9. On three-dimensional batches the full branch (\<open>diag=False\<close>) of both copies of
  \<open>forward\<close> reads \<open>x1\<close> through its first batch slice only: two calls whose first
  arguments have the same shape and agree on \<open>x1[0]\<close>, with the same \<open>x2\<close>, lengthscale and
  \<open>cats\<close>, return the same result, error or tensor. This holds for every number of batch
  elements, and \<open>x2\<close> may be any three-dimensional batch.
\<close>

theorem first_batch_slice_only:
  assumes "shape x1 = [b, n1, d]" and "shape x1' = [b, n1, d]" and "shape x2 = [b2, n2, d2]"
    and "\<forall>j<n1. \<forall>i<d. entry x1 [0, j, i] = entry x1' [0, j, i]"
  shows "forward self x1 x2 False False = forward self x1' x2 False False \<and>
         forward2 self x1 x2 False False = forward2 self x1' x2 False False"
proof -
  have "full_indicator x1 x2 i = full_indicator x1' x2 i" for i
    using assms(4) by (intro full_indicator_first_slice [OF assms(1) assms(2) assms(3)]) simp
  then have "full_indicator x1 x2 = full_indicator x1' x2"
    by (rule ext)
  then show ?thesis
    by (simp add: forward_def forward2_def forward_copy_def shape_at_def assms(1) assms(2))
qed

theorem first_batch_slice_only_witness:
  "tensor3 [[[0, 1]], [[1, 1 :: int]]] \<noteq> tensor3 [[[0, 1]], [[0, 0]]] \<and>
   forward scenario_kernel (tensor3 [[[0, 1]], [[1, 1 :: int]]]) (tensor3 [[[0, 0]], [[1, 1]]]) False False
     = forward scenario_kernel (tensor3 [[[0, 1]], [[0, 0 :: int]]]) (tensor3 [[[0, 0]], [[1, 1]]]) False False \<and>
   forward2 scenario_kernel (tensor3 [[[0, 1]], [[1, 1 :: int]]]) (tensor3 [[[0, 0]], [[1, 1]]]) False False
     = forward2 scenario_kernel (tensor3 [[[0, 1]], [[0, 0 :: int]]]) (tensor3 [[[0, 0]], [[1, 1]]]) False False"
proof -
  have s: "shape (tensor3 [[[0, 1]], [[1, 1 :: int]]]) = [2, 1, 2]"
    "shape (tensor3 [[[0, 1]], [[0, 0 :: int]]]) = [2, 1, 2]"
    "shape (tensor3 [[[0, 0]], [[1, 1 :: int]]]) = [2, 1, 2]"
    by (simp_all add: tensor3_def)
  have agree: "\<forall>j<1. \<forall>i<2. entry (tensor3 [[[0, 1]], [[1, 1 :: int]]]) [0, j, i]
                          = entry (tensor3 [[[0, 1]], [[0, 0]]]) [0, j, i]"
    by (simp add: tensor3_def entry_def)
  have ne: "tensor3 [[[0, 1]], [[1, 1 :: int]]] \<noteq> tensor3 [[[0, 1]], [[0, 0]]]"
    by (simp add: tensor3_def)
  from ne first_batch_slice_only [OF s agree] show ?thesis
    by (rule conjI)
qed

section \<open>Monotonicity in one lengthscale in exact arithmetic\<close>

lemma spec_base_strict_mono:
  assumes "0 < l" and "l < l'" and "2 \<le> c"
  shows "spec_base l c < spec_base l' c"
proof -
  define e where "e = exp (- l * real_of_int c)"
  define e' where "e' = exp (- l' * real_of_int c)"
  define r where "r = real_of_int c"
  have r: "2 \<le> r" using assms(3) by (simp add: r_def)
  have "- l' * r < - l * r" using assms(2) r by simp
  then have lt: "e' < e" by (simp add: e_def e'_def r_def)
  have pos: "0 < e'" "0 < e" by (simp_all add: e_def e'_def)
  have D: "0 < 1 + (r - 1) * e" using r pos by (simp add: add_pos_pos)
  have D': "0 < 1 + (r - 1) * e'" using r pos by (simp add: add_pos_pos)
  have "(1 - e) * (1 + (r - 1) * e') - (1 - e') * (1 + (r - 1) * e) = r * (e' - e)"
    by (simp add: algebra_simps)
  moreover have "r * (e' - e) < 0"
    using r lt by (simp add: mult_pos_neg)
  ultimately have "(1 - e) * (1 + (r - 1) * e') < (1 - e') * (1 + (r - 1) * e)"
    by linarith
  then have "(1 - e) / (1 + (r - 1) * e) < (1 - e') / (1 + (r - 1) * e')"
    using D D' by (simp add: frac_less_eq field_simps)
  then show ?thesis
    by (simp add: spec_base_def e_def e'_def r_def)
qed

text \<open>
  In exact arithmetic, with every \<open>c_i \<ge> 2\<close> and all lengthscales positive, raising the
  lengthscale of one dimension \<open>i\<close> and keeping the others strictly increases the factor
  of dimension \<open>i\<close>; so the entry of the full matrix strictly increases for every pair of
  points that differ on dimension \<open>i\<close>, and the entry of a pair of equal points stays 1.
\<close>

lemma lengthscale_monotone_exact:
  assumes len: "length (cats self) = d" and c2: "\<forall>c\<in>set (cats self). 2 \<le> c"
    and same_cats: "cats self' = cats self"
    and ls: "shape (lengthscale self) = [d] \<or> shape (lengthscale self) = [1, d]"
    and ls': "shape (lengthscale self') = [d] \<or> shape (lengthscale self') = [1, d]"
    and posl: "\<forall>m<d. 0 < lengthscale_entry (lengthscale self) m"
    and i: "i < d"
    and others: "\<forall>m<d. m \<noteq> i \<longrightarrow>
        lengthscale_entry (lengthscale self') m = lengthscale_entry (lengthscale self) m"
    and incr: "lengthscale_entry (lengthscale self) i < lengthscale_entry (lengthscale self') i"
    and x1: "shape x1 = [n1, d]" and x2: "shape x2 = [n2, d]"
  shows "spec_base (lengthscale_entry (lengthscale self) i) (cats self ! i)
           < spec_base (lengthscale_entry (lengthscale self') i) (cats self ! i) \<and>
         (\<exists>K K'. forward self x1 x2 False False = Inr (Tensor K) \<and>
                 forward self' x1 x2 False False = Inr (Tensor K') \<and>
            (\<forall>j<n1. \<forall>k<n2. entry x1 [j, i] \<noteq> entry x2 [k, i] \<longrightarrow>
                entry K [j, k] < entry K' [j, k]) \<and>
            (\<forall>j<n1. \<forall>k<n2. (\<forall>m<d. entry x1 [j, m] = entry x2 [k, m]) \<longrightarrow>
                entry K [j, k] = 1 \<and> entry K' [j, k] = 1))"
proof -
  let ?P = "\<lambda>idx. \<Prod>m<d. factor self x1 x2 m idx"
  let ?P' = "\<lambda>idx. \<Prod>m<d. factor self' x1 x2 m idx"
  have c: "2 \<le> cats self ! m" if "m < d" for m
    using that len c2 by simp
  have l: "0 < lengthscale_entry (lengthscale self) m" if "m < d" for m
    using that posl by simp
  have base: "spec_base (lengthscale_entry (lengthscale self) i) (cats self ! i)
           < spec_base (lengthscale_entry (lengthscale self') i) (cats self ! i)"
    by (rule spec_base_strict_mono [OF l [OF i] incr c [OF i]])
  have fw: "forward self x1 x2 False False = Inr (Tensor (mk [n1, n2] ?P))"
    using i len by (intro forward_full_2d [OF ls x1 x2]) simp_all
  have fw': "forward self' x1 x2 False False = Inr (Tensor (mk [n1, n2] ?P'))"
    using i len same_cats by (intro forward_full_2d [OF ls' x1 x2]) simp_all
  have less: "?P [j, k] < ?P' [j, k]" if ne: "entry x1 [j, i] \<noteq> entry x2 [k, i]" for j k
  proof -
    let ?f = "\<lambda>m. factor self x1 x2 m [j, k]" and ?f' = "\<lambda>m. factor self' x1 x2 m [j, k]"
    have mem: "i \<in> {..<d}" using i by simp
    have split: "(\<Prod>m<d. ?f m) = ?f i * (\<Prod>m\<in>{..<d} - {i}. ?f m)"
      by (rule prod.remove [OF _ mem]) simp
    have split': "(\<Prod>m<d. ?f' m) = ?f' i * (\<Prod>m\<in>{..<d} - {i}. ?f' m)"
      by (rule prod.remove [OF _ mem]) simp
    have rest: "(\<Prod>m\<in>{..<d} - {i}. ?f' m) = (\<Prod>m\<in>{..<d} - {i}. ?f m)"
      by (rule prod.cong) (use others same_cats in \<open>simp_all add: factor_def\<close>)
    have rest_pos: "0 < (\<Prod>m\<in>{..<d} - {i}. ?f m)"
      by (rule prod_pos) (simp add: factor_def spec_sim_bounds l c)
    have "?f i < ?f' i"
      using base ne by (simp add: factor_def spec_sim_def same_cats)
    then have "?f i * (\<Prod>m\<in>{..<d} - {i}. ?f m) < ?f' i * (\<Prod>m\<in>{..<d} - {i}. ?f m)"
      using rest_pos by (rule mult_strict_right_mono)
    then show ?thesis
      by (simp only: split split' rest)
  qed
  have one: "?P [j, k] = 1 \<and> ?P' [j, k] = 1"
    if eq: "\<forall>m<d. entry x1 [j, m] = entry x2 [k, m]" for j k
  proof
    show "?P [j, k] = 1"
      by (rule prod.neutral) (simp add: factor_def spec_sim_def eq)
    show "?P' [j, k] = 1"
      by (rule prod.neutral) (simp add: factor_def spec_sim_def eq)
  qed
  have "\<forall>j<n1. \<forall>k<n2. entry x1 [j, i] \<noteq> entry x2 [k, i] \<longrightarrow>
          entry (mk [n1, n2] ?P) [j, k] < entry (mk [n1, n2] ?P') [j, k]"
    using less by (simp add: entry_mk)
  moreover have "\<forall>j<n1. \<forall>k<n2. (\<forall>m<d. entry x1 [j, m] = entry x2 [k, m]) \<longrightarrow>
          entry (mk [n1, n2] ?P) [j, k] = 1 \<and> entry (mk [n1, n2] ?P') [j, k] = 1"
    using one by (simp add: entry_mk)
  ultimately show ?thesis
    using base fw fw' by blast
qed

section \<open>Rounding to single precision\<close>

lemma rne_lower: "\<lfloor>m\<rfloor> \<le> rne m"
  by (simp add: rne_def Let_def)

lemma rne_upper: "rne m \<le> \<lfloor>m\<rfloor> + 1"
  by (simp add: rne_def Let_def)

lemma rne_of_int [simp]: "rne (of_int n) = n"
  by (simp add: rne_def Let_def)

lemma rne_ge_int:
  assumes "of_int n \<le> m"
  shows "n \<le> rne m"
proof -
  from assms have "n \<le> \<lfloor>m\<rfloor>" by (simp add: le_floor_iff)
  with rne_lower [of m] show ?thesis by linarith
qed

lemma rne_le_int:
  assumes "m \<le> of_int n"
  shows "rne m \<le> n"
proof (cases "m = of_int n")
  case True
  then show ?thesis by simp
next
  case False
  with assms have "m < of_int n" by simp
  then have "\<lfloor>m\<rfloor> < n" by (simp add: floor_less_iff)
  with rne_upper [of m] show ?thesis by linarith
qed

lemma rne_mono:
  assumes "a \<le> b"
  shows "rne a \<le> rne b"
proof (cases "\<lfloor>a\<rfloor> = \<lfloor>b\<rfloor>")
  case True
  with assms show ?thesis
    by (auto simp: rne_def Let_def)
next
  case False
  with assms have "\<lfloor>a\<rfloor> < \<lfloor>b\<rfloor>"
    using floor_mono [of a b] by linarith
  then have "\<lfloor>a\<rfloor> + 1 \<le> \<lfloor>b\<rfloor>" by simp
  with rne_upper [of a] rne_lower [of b] show ?thesis by linarith
qed

lemma rne_minus: "rne (- m) = - rne m"
proof (cases "m = of_int \<lfloor>m\<rfloor>")
  case True
  then obtain n where "m = of_int n" ..
  then show ?thesis by (simp flip: of_int_minus)
next
  case False
  then have fl: "\<lfloor>- m\<rfloor> = - \<lfloor>m\<rfloor> - 1"
    by (metis ceiling_def ceiling_altdef diff_minus_eq_add minus_diff_eq uminus_add_conv_diff add.inverse_inverse)
  show ?thesis
    using False by (auto simp: rne_def Let_def fl algebra_simps)
qed


lemma ulp32_pos [simp]: "0 < ulp32 x"
  by (simp add: ulp32_def)

lemma ulp32_nonneg [simp]: "0 \<le> ulp32 x"
  by (simp add: ulp32_def)

lemma fexp32_minus [simp]: "fexp32 (- x) = fexp32 x"
  by (simp add: fexp32_def)

lemma ulp32_minus [simp]: "ulp32 (- x) = ulp32 x"
  by (simp add: ulp32_def)

lemma round32_minus: "round32 (- x) = - round32 x"
  by (simp add: round32_def rne_minus)

lemma rne_zero [simp]: "rne 0 = 0"
  by (simp add: rne_def)

lemma round32_zero [simp]: "round32 0 = 0"
  by (simp add: round32_def)

lemma round32_nonneg:
  assumes "0 \<le> x"
  shows "0 \<le> round32 x"
proof -
  have "of_int 0 \<le> x / ulp32 x"
    using assms ulp32_pos [of x] by (simp add: divide_nonneg_pos)
  then have "0 \<le> rne (x / ulp32 x)"
    by (rule rne_ge_int)
  then show ?thesis
    by (simp add: round32_def mult_nonneg_nonneg)
qed

lemma round32_nonpos:
  assumes "x \<le> 0"
  shows "round32 x \<le> 0"
  using round32_nonneg [of "- x"] assms by (simp add: round32_minus)

lemma floor_log2_bounds:
  assumes "0 < x"
  shows "2 powr real_of_int \<lfloor>log 2 x\<rfloor> \<le> x"
    and "x < 2 powr real_of_int (\<lfloor>log 2 x\<rfloor> + 1)"
  using floor_log_eq_powr_iff [of x 2 "\<lfloor>log 2 x\<rfloor>"] assms by simp_all

lemma powr_split:
  assumes "j \<le> k"
  shows "2 powr real_of_int k = real_of_int (2 ^ nat (k - j)) * 2 powr real_of_int j"
proof -
  have "2 powr real_of_int k = 2 powr (real (nat (k - j)) + real_of_int j)"
    using assms by simp
  also have "\<dots> = 2 powr real (nat (k - j)) * 2 powr real_of_int j"
    by (rule powr_add)
  also have "2 powr real (nat (k - j)) = 2 ^ nat (k - j)"
    by (simp add: powr_realpow)
  finally show ?thesis by simp
qed

lemma round32_le_pow2:
  assumes k: "- 126 \<le> k" and x: "x \<le> 2 powr real_of_int k"
  shows "round32 x \<le> 2 powr real_of_int k"
proof (cases "0 < x")
  case False
  then have "round32 x \<le> 0" by (simp add: round32_nonpos)
  also have "0 \<le> 2 powr real_of_int k" by simp
  finally show ?thesis .
next
  case True
  then have "log 2 x \<le> real_of_int k"
    using x by (simp add: log_le_iff)
  then have "\<lfloor>log 2 x\<rfloor> \<le> k"
    by (simp add: floor_le_iff)
  with k True have e: "fexp32 x - 23 \<le> k"
    by (simp add: fexp32_def)
  note sp = powr_split [OF e]
  have "x / ulp32 x \<le> real_of_int (2 ^ nat (k - (fexp32 x - 23)))"
    using x sp by (simp add: ulp32_def pos_divide_le_eq)
  then have "rne (x / ulp32 x) \<le> 2 ^ nat (k - (fexp32 x - 23))"
    by (rule rne_le_int)
  then have "real_of_int (rne (x / ulp32 x)) \<le> real_of_int (2 ^ nat (k - (fexp32 x - 23)))"
    by (simp only: of_int_le_iff)
  then have "round32 x \<le> real_of_int (2 ^ nat (k - (fexp32 x - 23))) * ulp32 x"
    unfolding round32_def by (rule mult_right_mono) simp
  then show ?thesis
    by (simp only: sp ulp32_def)
qed


lemma round32_ge_pow2:
  assumes k: "- 126 \<le> k" and x: "2 powr real_of_int k \<le> x"
  shows "2 powr real_of_int k \<le> round32 x"
proof -
  have pos: "0 < x"
    using x by (rule less_le_trans [rotated]) simp
  show ?thesis
  proof (cases "fexp32 x - 23 \<le> k")
    case True
    note sp = powr_split [OF True]
    have "real_of_int (2 ^ nat (k - (fexp32 x - 23))) \<le> x / ulp32 x"
      using x sp by (simp add: ulp32_def pos_le_divide_eq)
    then have "2 ^ nat (k - (fexp32 x - 23)) \<le> rne (x / ulp32 x)"
      by (rule rne_ge_int)
    then have "real_of_int (2 ^ nat (k - (fexp32 x - 23))) \<le> real_of_int (rne (x / ulp32 x))"
      by (simp only: of_int_le_iff)
    then have "real_of_int (2 ^ nat (k - (fexp32 x - 23))) * ulp32 x \<le> round32 x"
      unfolding round32_def by (rule mult_right_mono) simp
    then show ?thesis
      by (simp only: sp ulp32_def)
  next
    case False
    with k have e: "fexp32 x = \<lfloor>log 2 x\<rfloor>" and ke: "k \<le> fexp32 x"
      using pos by (simp_all add: fexp32_def max_def split: if_splits)
    have low: "2 powr real_of_int (fexp32 x) \<le> x"
      using floor_log2_bounds(1) [OF pos] by (simp only: e)
    have sp: "2 powr real_of_int (fexp32 x)
        = real_of_int (2 ^ nat (fexp32 x - (fexp32 x - 23))) * 2 powr real_of_int (fexp32 x - 23)"
      by (rule powr_split) simp
    have "real_of_int (2 ^ nat (fexp32 x - (fexp32 x - 23))) \<le> x / ulp32 x"
      using low sp by (simp add: ulp32_def pos_le_divide_eq)
    then have "2 ^ nat (fexp32 x - (fexp32 x - 23)) \<le> rne (x / ulp32 x)"
      by (rule rne_ge_int)
    then have "real_of_int (2 ^ nat (fexp32 x - (fexp32 x - 23))) \<le> real_of_int (rne (x / ulp32 x))"
      by (simp only: of_int_le_iff)
    then have "real_of_int (2 ^ nat (fexp32 x - (fexp32 x - 23))) * ulp32 x \<le> round32 x"
      unfolding round32_def by (rule mult_right_mono) simp
    then have "2 powr real_of_int (fexp32 x) \<le> round32 x"
      by (simp only: sp ulp32_def)
    moreover have "2 powr real_of_int k \<le> (2::real) powr real_of_int (fexp32 x)"
      using ke by simp
    ultimately show ?thesis
      by linarith
  qed
qed

lemma round32_pow2:
  assumes "- 126 \<le> k"
  shows "round32 (2 powr real_of_int k) = 2 powr real_of_int k"
  using round32_le_pow2 [OF assms order_refl] round32_ge_pow2 [OF assms order_refl]
  by (rule antisym)

lemma round32_one [simp]: "round32 1 = 1"
  using round32_pow2 [of 0] by simp

lemma round32_two [simp]: "round32 2 = 2"
  using round32_pow2 [of 1] by simp

lemma fexp32_mono:
  assumes "0 < x" and "x \<le> y"
  shows "fexp32 x \<le> fexp32 y"
proof -
  have "log 2 x \<le> log 2 y"
    using assms by simp
  then have "\<lfloor>log 2 x\<rfloor> \<le> \<lfloor>log 2 y\<rfloor>"
    by (rule floor_mono)
  then show ?thesis
    using assms by (simp add: fexp32_def)
qed

lemma round32_mono_pos:
  assumes x: "0 < x" and xy: "x \<le> y"
  shows "round32 x \<le> round32 y"
proof (cases "fexp32 x = fexp32 y")
  case True
  then have u: "ulp32 y = ulp32 x"
    by (simp add: ulp32_def)
  have "x / ulp32 x \<le> y / ulp32 x"
    using xy by (simp add: divide_right_mono)
  then have "rne (x / ulp32 x) \<le> rne (y / ulp32 x)"
    by (rule rne_mono)
  then have "real_of_int (rne (x / ulp32 x)) \<le> real_of_int (rne (y / ulp32 x))"
    by (simp only: of_int_le_iff)
  then have "real_of_int (rne (x / ulp32 x)) * ulp32 x \<le> real_of_int (rne (y / ulp32 x)) * ulp32 x"
    by (rule mult_right_mono) simp
  then show ?thesis
    by (simp only: round32_def u)
next
  case False
  with fexp32_mono [OF x xy] have lt: "fexp32 x < fexp32 y"
    by simp
  have y: "0 < y"
    using x xy by linarith
  have k: "- 126 \<le> fexp32 y"
    by (simp add: fexp32_def)
  have "- 126 \<le> fexp32 x"
    by (simp add: fexp32_def)
  with lt have ey: "fexp32 y = \<lfloor>log 2 y\<rfloor>"
    using y by (simp add: fexp32_def max_def split: if_splits)
  have lowy: "2 powr real_of_int (fexp32 y) \<le> y"
    using floor_log2_bounds(1) [OF y] by (simp only: ey)
  have "\<lfloor>log 2 x\<rfloor> \<le> fexp32 x"
    using x by (simp add: fexp32_def)
  with lt have "\<lfloor>log 2 x\<rfloor> + 1 \<le> fexp32 y"
    by linarith
  then have "2 powr real_of_int (\<lfloor>log 2 x\<rfloor> + 1) \<le> (2::real) powr real_of_int (fexp32 y)"
    by simp
  with floor_log2_bounds(2) [OF x] have upx: "x \<le> 2 powr real_of_int (fexp32 y)"
    by linarith
  from round32_le_pow2 [OF k upx] round32_ge_pow2 [OF k lowy] show ?thesis
    by linarith
qed

lemma round32_mono:
  assumes "x \<le> y"
  shows "round32 x \<le> round32 y"
proof -
  consider "0 < x" | "x \<le> 0" "0 \<le> y" | "y < 0"
    using assms by linarith
  then show ?thesis
  proof cases
    case 1
    then show ?thesis using assms by (rule round32_mono_pos)
  next
    case 2
    then show ?thesis
      using round32_nonpos [of x] round32_nonneg [of y] by linarith
  next
    case 3
    then have "round32 (- y) \<le> round32 (- x)"
      using assms by (intro round32_mono_pos) simp_all
    then show ?thesis
      by (simp add: round32_minus)
  qed
qed


section \<open>The single-precision kernel on two-dimensional batches\<close>

lemma base_tensor32_value:
  assumes "shape (lengthscale self) = [m] \<or> shape (lengthscale self) = [1, m]"
    "i < m" "i < length (cats self)"
  shows "base_tensor32 self i =
           Inr (mk (replicate (length (shape (lengthscale self)) - 1) 1)
                  (\<lambda>idx. base32 (lengthscale_entry (lengthscale self) i) (cats self ! i)))"
  using assms(1)
proof
  assume s: "shape (lengthscale self) = [m]"
  show ?thesis using assms(2,3)
    apply (simp add: s base_tensor32_def select_last_def list_get_def bind_def tmap_def tdiv32_def
        binop_def broadcast_shapes_def)
    apply (rule mk_cong)
    apply (auto simp: entry_mk bindex_def base32_def lengthscale_entry_def s)
    done
next
  assume s: "shape (lengthscale self) = [1, m]"
  show ?thesis using assms(2,3)
    apply (simp add: s base_tensor32_def select_last_def list_get_def bind_def tmap_def tdiv32_def
        binop_def broadcast_shapes_def)
    apply (rule mk_cong)
    apply (auto simp: entry_mk bindex_def base32_def lengthscale_entry_def s)
    done
qed

lemma step32_full_2d:
  assumes ls: "shape (lengthscale self) = [m] \<or> shape (lengthscale self) = [1, m]"
    and x1: "shape x1 = [n1, d1]" and x2: "shape x2 = [n2, d2]"
    and i: "i < d1" "i < d2" "i < m" "i < length (cats self)"
  shows "step32 self (full_indicator x1 x2) i res =
           imul32 res (mk [n1, n2] (factor32 self x1 x2 i))"
proof -
  let ?B = "mk (replicate (length (shape (lengthscale self)) - 1) 1)
                  (\<lambda>idx. base32 (lengthscale_entry (lengthscale self) i) (cats self ! i))"
  let ?E = "mk [n1, n2] (\<lambda>idx. entry x1 [idx ! 0, i] \<noteq> entry x2 [idx ! 1, i])"
  have b: "base_tensor32 self i = Inr ?B"
    by (rule base_tensor32_value [OF ls i(3,4)])
  have pow: "bind (unsqueeze ?B (- 1)) (\<lambda>b'. tpow b' ?E) = Inr (mk [n1, n2] (factor32 self x1 x2 i))"
    using ls
  proof
    assume s: "shape (lengthscale self) = [m]"
    show ?thesis
      apply (simp add: s unsqueeze_def wrap_dim_def tpow_def binop_def broadcast_shapes_def)
      apply (rule mk_cong)
      apply (auto simp: entry_mk bindex_def factor32_def)
      done
  next
    assume s: "shape (lengthscale self) = [1, m]"
    show ?thesis
      apply (simp add: s unsqueeze_def wrap_dim_def tpow_def binop_def broadcast_shapes_def)
      apply (rule mk_cong)
      apply (auto simp: entry_mk bindex_def factor32_def)
      done
  qed
  then obtain b' where b': "unsqueeze ?B (- 1) = Inr b'"
    and p: "tpow b' ?E = Inr (mk [n1, n2] (factor32 self x1 x2 i))"
    by (auto simp: bind_eq_Inr)
  show ?thesis
    by (simp only: step32_def b b' full_indicator_2d [OF x1 x2 i(1,2)] p bind_Inr)
qed

lemma imul32_first: "imul32 (PyFloat 1) (mk s f) = Inr (Tensor (mk s (\<lambda>idx. round32 (1 * f idx))))"
  by (simp add: tmap_def) (rule mk_cong, simp add: entry_mk)

lemma imul32_next_2d:
  "imul32 (Tensor (mk [n1, n2] f)) (mk [n1, n2] g)
     = Inr (Tensor (mk [n1, n2] (\<lambda>idx. round32 (f idx * g idx))))"
  apply (simp add: broadcast_shapes_def)
  apply (rule mk_cong)
  apply (auto simp: entry_mk bindex_def)
  done

lemma loop32_full_2d:
  assumes ls: "shape (lengthscale self) = [m] \<or> shape (lengthscale self) = [1, m]"
    and x1: "shape x1 = [n1, d1]" and x2: "shape x2 = [n2, d2]"
    and k: "k \<le> d1" "k \<le> d2" "k \<le> m" "k \<le> length (cats self)"
  shows "for_range (step32 self (full_indicator x1 x2)) [0..<k] (PyFloat 1) =
           Inr (if k = 0 then PyFloat 1
                else Tensor (mk [n1, n2] (\<lambda>idx. fprod32 (\<lambda>i. factor32 self x1 x2 i idx) k)))"
  using k
proof (induction k)
  case 0
  then show ?case by simp
next
  case (Suc k)
  have st: "step32 self (full_indicator x1 x2) k res = imul32 res (mk [n1, n2] (factor32 self x1 x2 k))"
    for res
    using Suc.prems by (intro step32_full_2d [OF ls x1 x2]) simp_all
  from Suc have IH: "for_range (step32 self (full_indicator x1 x2)) [0..<k] (PyFloat 1) =
           Inr (if k = 0 then PyFloat 1
                else Tensor (mk [n1, n2] (\<lambda>idx. fprod32 (\<lambda>i. factor32 self x1 x2 i idx) k)))"
    by simp
  show ?case
  proof (cases "k = 0")
    case True
    with st [of "PyFloat 1"] show ?thesis
      by (simp add: imul32_first del: imul32.simps)
  next
    case False
    then show ?thesis
      by (simp add: for_range_append IH st imul32_next_2d del: imul32.simps)
  qed
qed

lemma forward32_full_2d:
  assumes ls: "shape (lengthscale self) = [m] \<or> shape (lengthscale self) = [1, m]"
    and x1: "shape x1 = [n1, d1]" and x2: "shape x2 = [n2, d2]"
    and d: "0 < d1" "d1 \<le> d2" "d1 \<le> m" "d1 \<le> length (cats self)"
  shows "forward32 self x1 x2 False False =
           Inr (Tensor (mk [n1, n2] (\<lambda>idx. fprod32 (\<lambda>i. factor32 self x1 x2 i idx) d1)))"
  using d loop32_full_2d [OF ls x1 x2, of d1]
  by (simp add: forward32_def shape_at_def wrap_dim_def x1)


section \<open>The rounded factor\<close>

text \<open>
  The rounded factor lies between 0 and 1 and does not decrease with the lengthscale, and
  so does the rounded product.
\<close>

lemma round32_unit_interval:
  assumes "0 \<le> x" and "x \<le> 1"
  shows "0 \<le> round32 x" and "round32 x \<le> 1"
  using round32_nonneg [OF assms(1)] round32_le_pow2 [of 0 x] assms(2) by simp_all

lemma round32_ge_one:
  assumes "1 \<le> x"
  shows "1 \<le> round32 x"
  using round32_ge_pow2 [of 0 x] assms by simp

lemma base32_parts:
  assumes l: "0 < l" and c: "2 \<le> c"
  defines "y \<equiv> round32 (exp (round32 (- l * round32 (real_of_int c))))"
  shows "0 \<le> y" and "y \<le> 1"
    and "0 \<le> round32 (1 - y)" and "round32 (1 - y) \<le> 1"
    and "1 \<le> round32 (1 + round32 (round32 (real_of_int (c - 1)) * y))"
proof -
  have rc: "0 \<le> round32 (real_of_int c)"
    using c by (intro round32_nonneg) simp
  have "- l * round32 (real_of_int c) \<le> 0"
    using l rc by (simp add: mult_nonneg_nonneg)
  then have z: "round32 (- l * round32 (real_of_int c)) \<le> 0"
    by (rule round32_nonpos)
  then have e1: "exp (round32 (- l * round32 (real_of_int c))) \<le> 1"
    by simp
  show y0: "0 \<le> y" and y1: "y \<le> 1"
    unfolding y_def using e1 by (intro round32_unit_interval; simp)+
  show "0 \<le> round32 (1 - y)" and "round32 (1 - y) \<le> 1"
    using y0 y1 by (intro round32_unit_interval; simp)+
  have "0 \<le> round32 (real_of_int (c - 1))"
    using c by (intro round32_nonneg) simp
  then have "0 \<le> round32 (real_of_int (c - 1)) * y"
    using y0 by (rule mult_nonneg_nonneg)
  then have "0 \<le> round32 (round32 (real_of_int (c - 1)) * y)"
    by (rule round32_nonneg)
  then show "1 \<le> round32 (1 + round32 (round32 (real_of_int (c - 1)) * y))"
    by (intro round32_ge_one) simp
qed

lemma base32_bounds:
  assumes "0 < l" and "2 \<le> c"
  shows "0 \<le> base32 l c" and "base32 l c \<le> 1"
proof -
  note p = base32_parts [OF assms]
  let ?y = "round32 (exp (round32 (- l * round32 (real_of_int c))))"
  let ?n = "round32 (1 - ?y)"
  let ?d = "round32 (1 + round32 (round32 (real_of_int (c - 1)) * ?y))"
  have a: "0 \<le> ?n / ?d"
    using p(3) p(5) by simp
  have b: "?n / ?d \<le> 1"
    using p(4) p(5) by (simp add: divide_le_eq)
  show "0 \<le> base32 l c"
    unfolding base32_def by (rule round32_unit_interval(1) [OF a b])
  show "base32 l c \<le> 1"
    unfolding base32_def by (rule round32_unit_interval(2) [OF a b])
qed

lemma base32_mono:
  assumes l: "0 < l" and ll: "l \<le> l'" and c: "2 \<le> c"
  shows "base32 l c \<le> base32 l' c"
proof -
  have l': "0 < l'" using l ll by linarith
  note p = base32_parts [OF l c] and p' = base32_parts [OF l' c]
  let ?y = "round32 (exp (round32 (- l * round32 (real_of_int c))))"
  let ?y' = "round32 (exp (round32 (- l' * round32 (real_of_int c))))"
  let ?r = "round32 (real_of_int (c - 1))"
  have rc: "0 \<le> round32 (real_of_int c)"
    using c by (intro round32_nonneg) simp
  have r: "0 \<le> ?r"
    using c by (intro round32_nonneg) simp
  have "- l' * round32 (real_of_int c) \<le> - l * round32 (real_of_int c)"
    using ll rc by (simp add: mult_right_mono)
  then have "round32 (- l' * round32 (real_of_int c)) \<le> round32 (- l * round32 (real_of_int c))"
    by (rule round32_mono)
  then have "exp (round32 (- l' * round32 (real_of_int c)))
      \<le> exp (round32 (- l * round32 (real_of_int c)))"
    by simp
  then have y: "?y' \<le> ?y"
    by (rule round32_mono)
  have n: "round32 (1 - ?y) \<le> round32 (1 - ?y')"
    using y by (intro round32_mono) simp
  have "?r * ?y' \<le> ?r * ?y"
    using y r by (rule mult_left_mono)
  then have "round32 (?r * ?y') \<le> round32 (?r * ?y)"
    by (rule round32_mono)
  then have d: "round32 (1 + round32 (?r * ?y')) \<le> round32 (1 + round32 (?r * ?y))"
    by (intro round32_mono) simp
  have "round32 (1 - ?y) / round32 (1 + round32 (?r * ?y))
      \<le> round32 (1 - ?y') / round32 (1 + round32 (?r * ?y'))"
    using n d p(3) p'(5) by (intro frac_le) simp_all
  then show ?thesis
    unfolding base32_def by (rule round32_mono)
qed

lemma fprod32_bounds:
  assumes "\<And>m. m < k \<Longrightarrow> 0 \<le> f m \<and> f m \<le> 1"
  shows "0 \<le> fprod32 f k \<and> fprod32 f k \<le> 1"
  using assms
proof (induction k)
  case 0
  then show ?case by simp
next
  case (Suc k)
  then have IH: "0 \<le> fprod32 f k" "fprod32 f k \<le> 1" and fk: "0 \<le> f k" "f k \<le> 1"
    by simp_all
  have "0 \<le> fprod32 f k * f k"
    using IH(1) fk(1) by (rule mult_nonneg_nonneg)
  moreover have "fprod32 f k * f k \<le> 1"
    using IH fk by (simp add: mult_le_one)
  ultimately show ?case
    using round32_unit_interval [of "fprod32 f k * f k"] by simp
qed

lemma fprod32_mono:
  assumes "\<And>m. m < k \<Longrightarrow> 0 \<le> f m \<and> f m \<le> g m"
  shows "0 \<le> fprod32 f k \<and> fprod32 f k \<le> fprod32 g k"
  using assms
proof (induction k)
  case 0
  then show ?case by simp
next
  case (Suc k)
  then have IH: "0 \<le> fprod32 f k" "fprod32 f k \<le> fprod32 g k"
    and fk: "0 \<le> f k" "f k \<le> g k"
    by simp_all
  have "0 \<le> fprod32 f k * f k"
    using IH(1) fk(1) by (rule mult_nonneg_nonneg)
  moreover have "fprod32 f k * f k \<le> fprod32 g k * g k"
    using IH fk by (intro mult_mono) simp_all
  ultimately show ?case
    by (simp add: round32_nonneg round32_mono)
qed

lemma fprod32_ones:
  assumes "\<And>m. m < k \<Longrightarrow> f m = 1"
  shows "fprod32 f k = 1"
  using assms by (induction k) simp_all


section \<open>Exact values and saturation\<close>

text \<open>
  Numbers that float32 holds are rounded to themselves, and the numbers just below and
  just above 1 are rounded to 1. So the rounded factor is exactly 1 from the lengthscale 16
  on and exactly 0 up to the lengthscale \<open>2 ^ -30\<close>, for two categories.
\<close>

lemma round32_dyadic:
  assumes n: "\<bar>n\<bar> < 2 ^ 24" and k: "- 149 \<le> k"
  shows "round32 (real_of_int n * 2 powr real_of_int k) = real_of_int n * 2 powr real_of_int k"
proof (cases "n = 0")
  case True
  then show ?thesis by simp
next
  case False
  let ?x = "real_of_int n * 2 powr real_of_int k"
  have pos: "0 < \<bar>?x\<bar>"
    using False by simp
  have "\<bar>?x\<bar> = real_of_int \<bar>n\<bar> * 2 powr real_of_int k"
    by (simp add: abs_mult)
  also have "\<dots> < 2 ^ 24 * 2 powr real_of_int k"
    using n by (intro mult_strict_right_mono) (simp_all flip: of_int_less_iff [where 'a = real])
  also have "\<dots> = 2 powr real_of_int (k + 24)"
    by (simp add: powr_add powr_realpow [symmetric] add.commute)
  finally have "log 2 \<bar>?x\<bar> < real_of_int (k + 24)"
    using pos by (simp add: log_less_iff)
  then have "\<lfloor>log 2 \<bar>?x\<bar>\<rfloor> < k + 24"
    by (simp add: floor_less_iff)
  with k have e: "fexp32 ?x - 23 \<le> k"
    by (simp add: fexp32_def)
  define u where "u = ulp32 ?x"
  define N where "N = (2::int) ^ nat (k - (fexp32 ?x - 23))"
  define p where "p = 2 powr real_of_int k"
  have u: "0 < u"
    by (simp add: u_def)
  have sp: "p = real_of_int N * u"
    unfolding p_def N_def u_def ulp32_def by (rule powr_split [OF e])
  have "real_of_int n * p / u = real_of_int (n * N)"
    using u by (simp add: sp)
  then have "rne (real_of_int n * p / u) = n * N"
    by (simp only: rne_of_int)
  then have "real_of_int (rne (real_of_int n * p / u)) * u = real_of_int n * p"
    by (simp add: sp)
  then show ?thesis
    by (simp only: round32_def u_def p_def)
qed


lemma rne_up:
  assumes "real_of_int n - 1 / 2 < m" and "m \<le> real_of_int n"
  shows "rne m = n"
proof (cases "m = real_of_int n")
  case True
  then show ?thesis by simp
next
  case False
  with assms have "\<lfloor>m\<rfloor> = n - 1"
    by (intro floor_unique) simp_all
  with assms show ?thesis
    by (simp add: rne_def Let_def)
qed

lemma rne_down:
  assumes "real_of_int n \<le> m" and "m < real_of_int n + 1 / 2"
  shows "rne m = n"
proof -
  from assms have "\<lfloor>m\<rfloor> = n"
    by (intro floor_unique) simp_all
  with assms show ?thesis
    by (simp add: rne_def Let_def)
qed

lemma round32_near_one_below:
  assumes "1 - 1 / 2 ^ 25 < x" and "x \<le> 1"
  shows "round32 x = 1"
proof (cases "x = 1")
  case True
  then show ?thesis by simp
next
  case False
  with assms have x: "1 / 2 < x" "x < 1"
    by simp_all
  then have "\<lfloor>log 2 x\<rfloor> = - 1"
    using floor_log_eq_powr_iff [of x 2 "- 1"] by (simp add: powr_minus_divide)
  then have u: "ulp32 x = 1 / 2 ^ 24"
    using x by (simp add: ulp32_def fexp32_def powr_minus_divide)
  have "rne (x * 2 ^ 24) = 2 ^ 24"
    using assms by (intro rne_up) simp_all
  then show ?thesis
    by (simp add: round32_def u)
qed

lemma round32_near_one_above:
  assumes "1 \<le> x" and "x < 1 + 1 / 2 ^ 24"
  shows "round32 x = 1"
proof -
  have "\<lfloor>log 2 x\<rfloor> = 0"
    using floor_log_eq_powr_iff [of x 2 0] assms by simp
  then have u: "ulp32 x = 1 / 2 ^ 23"
    using assms by (simp add: ulp32_def fexp32_def powr_minus_divide)
  have "rne (x * 2 ^ 23) = 2 ^ 23"
    using assms by (intro rne_down) simp_all
  then show ?thesis
    by (simp add: round32_def u)
qed

lemma exp_minus_32: "exp (- 32 :: real) \<le> 1 / 2 ^ 26"
proof -
  have "(2::real) ^ 32 \<le> exp 1 ^ 32"
    by (rule power_mono) (use exp_ge_add_one_self [of "1::real"] in simp_all)
  also have "exp (1::real) ^ 32 = exp 32"
    using exp_of_nat_mult [of 32 "1::real"] by simp
  finally have "(2::real) ^ 26 \<le> exp 32"
    by simp
  then have "inverse (exp (32::real)) \<le> inverse (2 ^ 26)"
    by (intro le_imp_inverse_le) simp_all
  then show ?thesis
    by (simp add: exp_minus inverse_eq_divide)
qed

lemma base32_saturates_at_one:
  assumes "16 \<le> l"
  shows "base32 l 2 = 1"
proof -
  let ?z = "round32 (- l * round32 (real_of_int 2))"
  let ?y = "round32 (exp ?z)"
  have "round32 (- l * 2) \<le> round32 (- 32)"
    using assms by (intro round32_mono) simp
  also have "round32 (- 32) = - 32"
    using round32_pow2 [of 5] by (simp add: round32_minus)
  finally have z: "?z \<le> - 32"
    by simp
  then have "exp ?z \<le> exp (- 32)"
    by simp
  also note exp_minus_32
  finally have ez: "exp ?z \<le> 1 / 2 ^ 26" .
  have pw: "(2::real) powr real_of_int (- 26) = 1 / 2 ^ 26"
    by (simp add: powr_minus_divide)
  from ez have "exp ?z \<le> 2 powr real_of_int (- 26)"
    by (simp only: pw)
  then have "?y \<le> 2 powr real_of_int (- 26)"
    by (intro round32_le_pow2) simp_all
  then have y1: "?y \<le> 1 / 2 ^ 26"
    by (simp add: powr_minus_divide)
  have y0: "0 \<le> ?y"
    by (intro round32_nonneg) simp
  have num: "round32 (1 - ?y) = 1"
    using y0 y1 by (intro round32_near_one_below) simp_all
  have "round32 (1 * ?y) \<le> 2 powr real_of_int (- 26)"
    using y1 by (intro round32_le_pow2) (simp_all add: powr_minus_divide)
  then have t1: "round32 (1 * ?y) \<le> 1 / 2 ^ 26"
    by (simp add: powr_minus_divide)
  have t0: "0 \<le> round32 (1 * ?y)"
    using y0 by (intro round32_nonneg) simp
  have den: "round32 (1 + round32 (1 * ?y)) = 1"
    using t0 t1 by (intro round32_near_one_above) simp_all
  show ?thesis
    using num den by (simp add: base32_def)
qed

lemma base32_saturates_at_zero:
  assumes "0 < l" and "l \<le> 1 / 2 ^ 30"
  shows "base32 l 2 = 0"
proof -
  let ?z = "round32 (- l * round32 (real_of_int 2))"
  have "round32 (- (2 powr real_of_int (- 29))) \<le> round32 (- l * 2)"
    using assms by (intro round32_mono) (simp add: powr_minus_divide)
  then have "- (1 / 2 ^ 29) \<le> round32 (- l * 2)"
    using round32_pow2 [of "- 29"] by (simp add: round32_minus powr_minus_divide)
  then have zlow: "- (1 / 2 ^ 29) \<le> ?z"
    by simp
  have zup: "?z \<le> 0"
    using assms by (intro round32_nonpos) simp
  have "1 + ?z \<le> exp ?z"
    by (rule exp_ge_add_one_self)
  moreover have "(1::real) / 2 ^ 29 < 1 / 2 ^ 25"
    by simp
  ultimately have "1 - 1 / 2 ^ 25 < exp ?z"
    using zlow by linarith
  moreover have "exp ?z \<le> 1"
    using zup by simp
  ultimately have "round32 (exp ?z) = 1"
    by (rule round32_near_one_below)
  then have y: "round32 (exp (round32 (- (l * 2)))) = 1"
    by simp
  show ?thesis
    by (simp add: base32_def y)
qed


lemma round32_exact:
  "round32 (1 / 8) = 1 / 8" "round32 (7 / 8) = 7 / 8" "round32 (9 / 8) = 9 / 8"
  "round32 (13 / 16) = 13 / 16" "round32 (1 / 32) = 1 / 32" "round32 (31 / 32) = 31 / 32"
  "round32 (33 / 32) = 33 / 32" "round32 (- 2) = - 2" "round32 (- 4) = - 4"
  using round32_dyadic [of 1 "- 3"] round32_dyadic [of 7 "- 3"] round32_dyadic [of 9 "- 3"]
    round32_dyadic [of 13 "- 4"] round32_dyadic [of 1 "- 5"] round32_dyadic [of 31 "- 5"]
    round32_dyadic [of 33 "- 5"] round32_dyadic [of "- 1" 1] round32_dyadic [of "- 1" 2]
  by (simp_all add: powr_minus_divide)

lemma base32_one_two_upper: "base32 1 2 \<le> 13 / 16"
proof -
  let ?y = "round32 (exp (- 2))"
  have "1 / 8 \<le> exp (- 2 :: real)"
    using exp_minus_two_bounds(1) by linarith
  then have "round32 (1 / 8) \<le> ?y"
    by (rule round32_mono)
  then have y: "1 / 8 \<le> ?y"
    by (simp only: round32_exact)
  have y1: "?y \<le> 1"
    by (intro round32_unit_interval) simp_all
  have "round32 (1 - ?y) \<le> round32 (7 / 8)"
    using y by (intro round32_mono) simp
  then have num: "round32 (1 - ?y) \<le> 7 / 8"
    by (simp only: round32_exact)
  have num0: "0 \<le> round32 (1 - ?y)"
    using y1 by (intro round32_nonneg) simp
  have "round32 (1 / 8) \<le> round32 (1 * ?y)"
    using y by (intro round32_mono) simp
  then have t: "1 / 8 \<le> round32 (1 * ?y)"
    by (simp only: round32_exact)
  have "round32 (9 / 8) \<le> round32 (1 + round32 (1 * ?y))"
    using t by (intro round32_mono) simp
  then have den: "9 / 8 \<le> round32 (1 + round32 (1 * ?y))"
    by (simp only: round32_exact)
  have "round32 (1 - ?y) / round32 (1 + round32 (1 * ?y)) \<le> (7 / 8) / (9 / 8)"
    using num num0 den by (intro frac_le) simp_all
  then have "round32 (1 - ?y) / round32 (1 + round32 (1 * ?y)) \<le> 13 / 16"
    by simp
  then have "round32 (round32 (1 - ?y) / round32 (1 + round32 (1 * ?y))) \<le> round32 (13 / 16)"
    by (rule round32_mono)
  then show ?thesis
    by (simp add: base32_def round32_exact)
qed

lemma base32_two_two_lower: "7 / 8 \<le> base32 2 2"
proof -
  let ?y = "round32 (exp (- 4))"
  have "exp (- 4 :: real) = exp (- 2) * exp (- 2)"
    by (simp flip: exp_add)
  also have "\<dots> \<le> (135337 / 1000000) * (135337 / 1000000)"
    using exp_minus_two_bounds(2) by (intro mult_mono) simp_all
  also have "\<dots> \<le> 1 / 32"
    by simp
  finally have "round32 (exp (- 4)) \<le> round32 (1 / 32)"
    by (rule round32_mono)
  then have y: "?y \<le> 1 / 32"
    by (simp only: round32_exact)
  have y0: "0 \<le> ?y"
    by (intro round32_nonneg) simp
  have "round32 (31 / 32) \<le> round32 (1 - ?y)"
    using y by (intro round32_mono) simp
  then have num: "31 / 32 \<le> round32 (1 - ?y)"
    by (simp only: round32_exact)
  have "round32 (1 * ?y) \<le> round32 (1 / 32)"
    using y by (intro round32_mono) simp
  then have t: "round32 (1 * ?y) \<le> 1 / 32"
    by (simp only: round32_exact)
  have t0: "0 \<le> round32 (1 * ?y)"
    using y0 by (intro round32_nonneg) simp
  have "round32 (1 + round32 (1 * ?y)) \<le> round32 (33 / 32)"
    using t by (intro round32_mono) simp
  then have den: "round32 (1 + round32 (1 * ?y)) \<le> 33 / 32"
    by (simp only: round32_exact)
  have den1: "1 \<le> round32 (1 + round32 (1 * ?y))"
    using t0 by (intro round32_ge_one) simp
  have "(31 / 32) / (33 / 32) \<le> round32 (1 - ?y) / round32 (1 + round32 (1 * ?y))"
    using num den den1 by (intro frac_le) simp_all
  then have "7 / 8 \<le> round32 (1 - ?y) / round32 (1 + round32 (1 * ?y))"
    by simp
  then have "round32 (7 / 8) \<le> round32 (round32 (1 - ?y) / round32 (1 + round32 (1 * ?y)))"
    by (rule round32_mono)
  then show ?thesis
    by (simp add: base32_def round32_exact)
qed


lemma round32_idem_pos:
  assumes x: "0 < x"
  shows "round32 (round32 x) = round32 x"
proof -
  define e where "e = fexp32 x"
  define u where "u = 2 powr real_of_int (e - 23)"
  define n where "n = rne (x / u)"
  have u: "0 < u" by (simp add: u_def)
  have e: "- 126 \<le> e" "\<lfloor>log 2 x\<rfloor> \<le> e"
    using x by (simp_all add: e_def fexp32_def)
  have r: "round32 x = real_of_int n * 2 powr real_of_int (e - 23)"
    by (simp add: round32_def ulp32_def n_def u_def e_def)
  have "x < 2 powr real_of_int (\<lfloor>log 2 x\<rfloor> + 1)"
    by (rule floor_log2_bounds(2) [OF x])
  also have "\<dots> \<le> 2 powr real_of_int (e + 1)"
    using e(2) by simp
  also have "\<dots> = real_of_int (2 ^ nat ((e + 1) - (e - 23))) * 2 powr real_of_int (e - 23)"
    by (rule powr_split) simp
  finally have xlt: "x < real_of_int (2 ^ 24) * u"
    by (simp add: u_def)
  then have "x / u \<le> real_of_int (2 ^ 24)"
    using u by (simp add: pos_divide_le_eq)
  then have n_le: "n \<le> 2 ^ 24"
    unfolding n_def by (rule rne_le_int)
  have "real_of_int 0 \<le> x / u"
    using x u by simp
  then have n_ge: "0 \<le> n"
    unfolding n_def by (rule rne_ge_int)
  show ?thesis
  proof (cases "n = 2 ^ 24")
    case True
    have "real_of_int n * 2 powr real_of_int (e - 23) = 2 powr real_of_int (e + 1)"
      using powr_split [of "e - 23" "e + 1"] by (simp add: True)
    then have r': "round32 x = 2 powr real_of_int (e + 1)"
      by (simp only: r)
    show ?thesis
      unfolding r' by (rule round32_pow2) (use e(1) in simp)
  next
    case False
    with n_le n_ge have "\<bar>n\<bar> < 2 ^ 24"
      by simp
    moreover have "- 149 \<le> e - 23"
      using e(1) by simp
    ultimately show ?thesis
      unfolding r by (rule round32_dyadic)
  qed
qed

lemma round32_idem [simp]: "round32 (round32 x) = round32 x"
proof -
  consider "0 < x" | "x = 0" | "0 < - x"
    by linarith
  then show ?thesis
  proof cases
    case 1
    then show ?thesis by (rule round32_idem_pos)
  next
    case 2
    then show ?thesis by simp
  next
    case 3
    from round32_idem_pos [OF 3] show ?thesis
      by (simp add: round32_minus)
  qed
qed

lemma base32_float [simp]: "round32 (base32 l c) = base32 l c"
  by (simp add: base32_def)


lemma base_tensor32_single:
  "base_tensor32 \<lparr>cats = [c], lengthscale = tensor1 [l]\<rparr> 0
     = Inr \<lparr>shape = [], data = Leaf (base32 l c)\<rparr>"
proof -
  let ?k = "\<lparr>cats = [c], lengthscale = tensor1 [l]\<rparr>"
  have ls: "shape (lengthscale ?k) = [1] \<or> shape (lengthscale ?k) = [1, 1]"
    by (simp add: tensor1_def)
  have "base_tensor32 ?k 0 =
          Inr (mk (replicate (length (shape (lengthscale ?k)) - 1) 1)
                 (\<lambda>idx. base32 (lengthscale_entry (lengthscale ?k) 0) (cats ?k ! 0)))"
    by (rule base_tensor32_value [OF ls]) simp_all
  then show ?thesis
    by (simp add: tensor1_def mk_def lengthscale_entry_def entry_def)
qed

lemma forward32_single:
  "matrix_entry (forward32 \<lparr>cats = [c], lengthscale = tensor1 [l]\<rparr>
      (tensor2 [[0 :: int]]) (tensor2 [[1]]) False False) 0 0 = Some (base32 l c)"
proof -
  let ?k = "\<lparr>cats = [c], lengthscale = tensor1 [l]\<rparr>"
  let ?x1 = "tensor2 [[0 :: int]]" and ?x2 = "tensor2 [[1 :: int]]"
  have ls: "shape (lengthscale ?k) = [1] \<or> shape (lengthscale ?k) = [1, 1]"
    by (simp add: tensor1_def)
  have x1: "shape ?x1 = [1, 1]" and x2: "shape ?x2 = [1, 1]"
    by (simp_all add: tensor2_def)
  have fw: "forward32 ?k ?x1 ?x2 False False =
          Inr (Tensor (mk [1, 1] (\<lambda>idx. fprod32 (\<lambda>i. factor32 ?k ?x1 ?x2 i idx) 1)))"
    by (rule forward32_full_2d [OF ls x1 x2]) simp_all
  have f: "factor32 ?k ?x1 ?x2 0 [0, 0] = base32 l c"
    by (simp add: factor32_def tensor1_def tensor2_def lengthscale_entry_def entry_def)
  have "entry (mk [1, 1] (\<lambda>idx. fprod32 (\<lambda>i. factor32 ?k ?x1 ?x2 i idx) 1)) [0, 0]
          = fprod32 (\<lambda>i. factor32 ?k ?x1 ?x2 i [0, 0]) 1"
    by (rule entry_mk) simp
  also have "\<dots> = base32 l c"
    by (simp add: f)
  finally show ?thesis
    by (simp add: fw matrix_entry_def)
qed

section \<open>The range of the kernel in single precision\<close>

text \<open>
  C6, as the code has it. For \<open>d \<ge> 1\<close>, lengthscales \<open>l_i > 0\<close> and category counts
  \<open>2 \<le> c_i \<le> 2 ^ 24\<close> (so that float32 holds them), in float32: the factor that \<open>forward\<close>
  computes for dimension \<open>i\<close> is the number \<open>base32 l_i c_i\<close>, which lies between 0 and 1,
  both included; and \<open>forward(x1, x2, diag=False)\<close> returns on two-dimensional batches the
  \<open>n1 \<times> n2\<close> matrix of the rounded products of the factors, each entry between 0 and 1,
  both included. Neither bound is strict, as the example after the theorem shows; in exact
  arithmetic they are (lemma \<open>kernel_range_exact\<close>).
\<close>

theorem kernel_range_float32:
  assumes "length (cats self) = d" and "1 \<le> d"
    and "\<forall>c\<in>set (cats self). 2 \<le> c \<and> c \<le> 2 ^ 24"
    and "shape (lengthscale self) = [d] \<or> shape (lengthscale self) = [1, d]"
    and "\<forall>i<d. 0 < lengthscale_entry (lengthscale self) i"
    and "shape x1 = [n1, d]" and "shape x2 = [n2, d]"
  shows "(\<forall>i<d. \<exists>B. base_tensor32 self i = Inr B \<and>
            (\<forall>idx. inside idx (shape B) \<longrightarrow>
               entry B idx = base32 (lengthscale_entry (lengthscale self) i) (cats self ! i) \<and>
               0 \<le> entry B idx \<and> entry B idx \<le> 1)) \<and>
         (\<exists>K. forward32 self x1 x2 False False = Inr (Tensor K) \<and> shape K = [n1, n2] \<and>
            (\<forall>j<n1. \<forall>k<n2.
               entry K [j, k] =
                 fprod32 (\<lambda>i. base32 (lengthscale_entry (lengthscale self) i) (cats self ! i)
                                  ^ (if entry x1 [j, i] \<noteq> entry x2 [k, i] then 1 else 0)) d \<and>
               0 \<le> entry K [j, k] \<and> entry K [j, k] \<le> 1))"
proof -
  have c: "2 \<le> cats self ! i" if "i < d" for i
    using that assms(1,3) by simp
  have l: "0 < lengthscale_entry (lengthscale self) i" if "i < d" for i
    using that assms(5) by simp
  have b: "0 \<le> base32 (lengthscale_entry (lengthscale self) i) (cats self ! i) \<and>
           base32 (lengthscale_entry (lengthscale self) i) (cats self ! i) \<le> 1" if "i < d" for i
    using base32_bounds [OF l [OF that] c [OF that]] by simp
  have first: "\<exists>B. base_tensor32 self i = Inr B \<and>
            (\<forall>idx. inside idx (shape B) \<longrightarrow>
               entry B idx = base32 (lengthscale_entry (lengthscale self) i) (cats self ! i) \<and>
               0 \<le> entry B idx \<and> entry B idx \<le> 1)" if i: "i < d" for i
  proof -
    have "base_tensor32 self i =
          Inr (mk (replicate (length (shape (lengthscale self)) - 1) 1)
                 (\<lambda>idx. base32 (lengthscale_entry (lengthscale self) i) (cats self ! i)))"
      using i assms(1) by (intro base_tensor32_value [OF assms(4)]) simp_all
    then show ?thesis
      using b [OF i] by (simp add: entry_mk)
  qed
  have fw: "forward32 self x1 x2 False False =
          Inr (Tensor (mk [n1, n2] (\<lambda>idx. fprod32 (\<lambda>i. factor32 self x1 x2 i idx) d)))"
    using assms(1,2) by (intro forward32_full_2d [OF assms(4) assms(6) assms(7)]) simp_all
  have f: "0 \<le> factor32 self x1 x2 i idx \<and> factor32 self x1 x2 i idx \<le> 1" if "i < d" for i idx
    using b [OF that] by (simp add: factor32_def)
  have range: "0 \<le> fprod32 (\<lambda>i. factor32 self x1 x2 i idx) d \<and>
               fprod32 (\<lambda>i. factor32 self x1 x2 i idx) d \<le> 1" for idx
    by (rule fprod32_bounds) (rule f)
  define K0 where "K0 = mk [n1, n2] (\<lambda>idx. fprod32 (\<lambda>i. factor32 self x1 x2 i idx) d)"
  have fw0: "forward32 self x1 x2 False False = Inr (Tensor K0)"
    by (simp only: fw K0_def)
  have sK0: "shape K0 = [n1, n2]"
    by (simp add: K0_def)
  have eK0: "entry K0 [j, k] =
            fprod32 (\<lambda>i. base32 (lengthscale_entry (lengthscale self) i) (cats self ! i)
                             ^ (if entry x1 [j, i] \<noteq> entry x2 [k, i] then 1 else 0)) d \<and>
          0 \<le> entry K0 [j, k] \<and> entry K0 [j, k] \<le> 1" if "j < n1" "k < n2" for j k
  proof -
    have "entry K0 [j, k] = fprod32 (\<lambda>i. factor32 self x1 x2 i [j, k]) d"
      unfolding K0_def by (rule entry_mk) (simp add: that)
    moreover have "fprod32 (\<lambda>i. factor32 self x1 x2 i [j, k]) d =
            fprod32 (\<lambda>i. base32 (lengthscale_entry (lengthscale self) i) (cats self ! i)
                             ^ (if entry x1 [j, i] \<noteq> entry x2 [k, i] then 1 else 0)) d"
      by (simp add: factor32_def)
    ultimately show ?thesis
      using range [of "[j, k]"] by simp
  qed
  from first have "\<forall>i<d. \<exists>B. base_tensor32 self i = Inr B \<and>
            (\<forall>idx. inside idx (shape B) \<longrightarrow>
               entry B idx = base32 (lengthscale_entry (lengthscale self) i) (cats self ! i) \<and>
               0 \<le> entry B idx \<and> entry B idx \<le> 1)"
    by blast
  moreover from fw0 sK0 eK0
  have "\<exists>K. forward32 self x1 x2 False False = Inr (Tensor K) \<and> shape K = [n1, n2] \<and>
            (\<forall>j<n1. \<forall>k<n2.
               entry K [j, k] =
                 fprod32 (\<lambda>i. base32 (lengthscale_entry (lengthscale self) i) (cats self ! i)
                                  ^ (if entry x1 [j, i] \<noteq> entry x2 [k, i] then 1 else 0)) d \<and>
               0 \<le> entry K [j, k] \<and> entry K [j, k] \<le> 1)"
    by blast
  ultimately show ?thesis
    by (rule conjI)
qed

theorem kernel_range_float32_witness:
  "(\<exists>B. base_tensor32 scenario_kernel 1 = Inr B \<and> entry B [] = base32 1 2 \<and>
        0 \<le> entry B [] \<and> entry B [] \<le> 1) \<and>
   (\<exists>K. forward32 scenario_kernel scenario_points scenario_points False False = Inr (Tensor K) \<and>
        shape K = [3, 3] \<and>
        entry K [0, 2] = round32 (round32 (1 * base32 1 2) * base32 1 2) \<and>
        0 \<le> entry K [0, 2] \<and> entry K [0, 2] \<le> 1)"
proof -
  have th: "(\<forall>i<2. \<exists>B. base_tensor32 scenario_kernel i = Inr B \<and>
            (\<forall>idx. inside idx (shape B) \<longrightarrow>
               entry B idx = base32 (lengthscale_entry (lengthscale scenario_kernel) i)
                               (cats scenario_kernel ! i) \<and>
               0 \<le> entry B idx \<and> entry B idx \<le> 1)) \<and>
         (\<exists>K. forward32 scenario_kernel scenario_points scenario_points False False = Inr (Tensor K) \<and>
            shape K = [3, 3] \<and>
            (\<forall>j<3. \<forall>k<3.
               entry K [j, k] =
                 fprod32 (\<lambda>i. base32 (lengthscale_entry (lengthscale scenario_kernel) i)
                                   (cats scenario_kernel ! i)
                                  ^ (if entry scenario_points [j, i] \<noteq> entry scenario_points [k, i]
                                     then 1 else 0)) 2 \<and>
               0 \<le> entry K [j, k] \<and> entry K [j, k] \<le> 1))"
    by (rule kernel_range_float32)
      (simp_all add: scenario_kernel_def scenario_points_def tensor1_def tensor2_def
        lengthscale_entry_def entry_def less_Suc_eq numeral_2_eq_2)
  have "(1::nat) < 2 \<longrightarrow> (\<exists>B. base_tensor32 scenario_kernel 1 = Inr B \<and>
            (\<forall>idx. inside idx (shape B) \<longrightarrow>
               entry B idx = base32 (lengthscale_entry (lengthscale scenario_kernel) 1)
                               (cats scenario_kernel ! 1) \<and>
               0 \<le> entry B idx \<and> entry B idx \<le> 1))"
    by (rule th [THEN conjunct1, THEN spec])
  then obtain B where B: "base_tensor32 scenario_kernel 1 = Inr B"
    and eB: "\<forall>idx. inside idx (shape B) \<longrightarrow>
               entry B idx = base32 (lengthscale_entry (lengthscale scenario_kernel) 1)
                               (cats scenario_kernel ! 1) \<and>
               0 \<le> entry B idx \<and> entry B idx \<le> 1"
    by auto
  have "base_tensor32 scenario_kernel 1 =
          Inr (mk (replicate (length (shape (lengthscale scenario_kernel)) - 1) 1)
                 (\<lambda>idx. base32 (lengthscale_entry (lengthscale scenario_kernel) 1)
                          (cats scenario_kernel ! 1)))"
    by (rule base_tensor32_value [where m = 2]) (simp_all add: scenario_kernel_def tensor1_def)
  with B have sB: "shape B = []"
    by (auto simp: scenario_kernel_def tensor1_def)
  have "entry B [] = base32 (lengthscale_entry (lengthscale scenario_kernel) 1)
                               (cats scenario_kernel ! 1) \<and>
               0 \<le> entry B [] \<and> entry B [] \<le> 1"
    using eB [THEN spec, of "[]"] by (simp add: sB)
  then have first: "entry B [] = base32 1 2 \<and> 0 \<le> entry B [] \<and> entry B [] \<le> 1"
    by (simp add: scenario_kernel_def tensor1_def lengthscale_entry_def entry_def)
  from th [THEN conjunct2] obtain K
    where K: "forward32 scenario_kernel scenario_points scenario_points False False = Inr (Tensor K)"
      and sK: "shape K = [3, 3]"
      and eK: "\<forall>j<3. \<forall>k<3.
               entry K [j, k] =
                 fprod32 (\<lambda>i. base32 (lengthscale_entry (lengthscale scenario_kernel) i)
                                   (cats scenario_kernel ! i)
                                  ^ (if entry scenario_points [j, i] \<noteq> entry scenario_points [k, i]
                                     then 1 else 0)) 2 \<and>
               0 \<le> entry K [j, k] \<and> entry K [j, k] \<le> 1"
    by blast
  have e02: "entry K [0, 2] =
                 fprod32 (\<lambda>i. base32 (lengthscale_entry (lengthscale scenario_kernel) i)
                                   (cats scenario_kernel ! i)
                                  ^ (if entry scenario_points [0, i] \<noteq> entry scenario_points [2, i]
                                     then 1 else 0)) 2 \<and>
               0 \<le> entry K [0, 2] \<and> entry K [0, 2] \<le> 1"
    by (rule eK [rule_format]) simp_all
  have "fprod32 (\<lambda>i. base32 (lengthscale_entry (lengthscale scenario_kernel) i)
                                   (cats scenario_kernel ! i)
                                  ^ (if entry scenario_points [0, i] \<noteq> entry scenario_points [2, i]
                                     then 1 else 0)) 2
          = round32 (round32 (1 * base32 1 2) * base32 1 2)"
    by (simp add: numeral_2_eq_2 scenario_kernel_def scenario_points_def tensor1_def tensor2_def
        lengthscale_entry_def entry_def)
  with e02 have second: "entry K [0, 2] = round32 (round32 (1 * base32 1 2) * base32 1 2) \<and>
               0 \<le> entry K [0, 2] \<and> entry K [0, 2] \<le> 1"
    by simp
  from B first K sK second show ?thesis
    by blast
qed

text \<open>
  C6, as the claim states it, fails. With \<open>cats = [2]\<close> and the lengthscale 16,
  \<open>exp (-32)\<close> is below half the distance from 1 to the float32 value under it, so
  \<open>1 - exp (-32)\<close> is rounded to 1 and the factor is exactly 1, not below 1. With the
  lengthscale \<open>2 ^ -30\<close>, \<open>exp (- 2 ^ -29)\<close> is rounded to 1, so the factor is exactly 0
  and the kernel value of the points \<open>[0]\<close> and \<open>[1]\<close> is 0, not above 0.
\<close>

theorem kernel_range_float32_counterexample:
  "base_tensor32 \<lparr>cats = [2], lengthscale = tensor1 [16]\<rparr> 0 = Inr \<lparr>shape = [], data = Leaf 1\<rparr> \<and>
   matrix_entry (forward32 \<lparr>cats = [2], lengthscale = tensor1 [1 / 2 ^ 30]\<rparr>
      (tensor2 [[0 :: int]]) (tensor2 [[1]]) False False) 0 0 = Some 0"
proof -
  have "base32 16 2 = 1"
    by (rule base32_saturates_at_one) simp
  moreover have "base32 (1 / 2 ^ 30) 2 = 0"
    by (rule base32_saturates_at_zero) simp_all
  ultimately show ?thesis
    using base_tensor32_single [of 2 16] forward32_single [of 2 "1 / 2 ^ 30"]
    by simp
qed

section \<open>Monotonicity in one lengthscale in single precision\<close>

text \<open>
  From the lengthscale 16 on the kernel value of two categories no longer moves.
\<close>

lemma lengthscale_saturation:
  "matrix_entry (forward32 \<lparr>cats = [2], lengthscale = tensor1 [16]\<rparr>
      (tensor2 [[0 :: int]]) (tensor2 [[1]]) False False) 0 0 = Some 1 \<and>
   matrix_entry (forward32 \<lparr>cats = [2], lengthscale = tensor1 [32]\<rparr>
      (tensor2 [[0 :: int]]) (tensor2 [[1]]) False False) 0 0 = Some 1"
proof -
  have "base32 16 2 = 1" and "base32 32 2 = 1"
    by (rule base32_saturates_at_one, simp)+
  then show ?thesis
    by (simp only: forward32_single simp_thms)
qed

text \<open>
  C4, as the code has it. With every \<open>2 \<le> c_i \<le> 2 ^ 24\<close> (so that float32 holds them) and
  all lengthscales positive, raising the lengthscale of one dimension \<open>i\<close> and keeping the
  others never lowers the factor that \<open>forward\<close> computes for dimension \<open>i\<close> in float32;
  so no entry of the full matrix becomes smaller, and the entry of a pair of equal points
  stays 1. In exact arithmetic the factor and the entries of the pairs that differ on
  dimension \<open>i\<close> strictly increase (lemma \<open>lengthscale_monotone_exact\<close>); in float32 they
  may stay as they are (lemma \<open>lengthscale_saturation\<close>).
\<close>

theorem lengthscale_monotone_float32:
  assumes len: "length (cats self) = d"
    and c2: "\<forall>c\<in>set (cats self). 2 \<le> c \<and> c \<le> 2 ^ 24"
    and same_cats: "cats self' = cats self"
    and ls: "shape (lengthscale self) = [d] \<or> shape (lengthscale self) = [1, d]"
    and ls': "shape (lengthscale self') = [d] \<or> shape (lengthscale self') = [1, d]"
    and posl: "\<forall>m<d. 0 < lengthscale_entry (lengthscale self) m"
    and i: "i < d"
    and others: "\<forall>m<d. m \<noteq> i \<longrightarrow>
        lengthscale_entry (lengthscale self') m = lengthscale_entry (lengthscale self) m"
    and incr: "lengthscale_entry (lengthscale self) i < lengthscale_entry (lengthscale self') i"
    and x1: "shape x1 = [n1, d]" and x2: "shape x2 = [n2, d]"
  shows "(\<exists>B B'. base_tensor32 self i = Inr B \<and> base_tensor32 self' i = Inr B' \<and>
            (\<forall>idx idx'. inside idx (shape B) \<and> inside idx' (shape B') \<longrightarrow>
               entry B idx = base32 (lengthscale_entry (lengthscale self) i) (cats self ! i) \<and>
               entry B' idx' = base32 (lengthscale_entry (lengthscale self') i) (cats self ! i) \<and>
               entry B idx \<le> entry B' idx')) \<and>
         (\<exists>K K'. forward32 self x1 x2 False False = Inr (Tensor K) \<and>
                 forward32 self' x1 x2 False False = Inr (Tensor K') \<and>
                 shape K = [n1, n2] \<and> shape K' = [n1, n2] \<and>
            (\<forall>j<n1. \<forall>k<n2. entry K [j, k] \<le> entry K' [j, k]) \<and>
            (\<forall>j<n1. \<forall>k<n2. (\<forall>m<d. entry x1 [j, m] = entry x2 [k, m]) \<longrightarrow>
                entry K [j, k] = 1 \<and> entry K' [j, k] = 1))"
proof -
  let ?l = "\<lambda>m. lengthscale_entry (lengthscale self) m"
  let ?l' = "\<lambda>m. lengthscale_entry (lengthscale self') m"
  have c: "2 \<le> cats self ! m" if "m < d" for m
    using that len c2 by simp
  have l: "0 < ?l m" if "m < d" for m
    using that posl by simp
  have base: "base32 (?l i) (cats self ! i) \<le> base32 (?l' i) (cats self ! i)"
    using incr by (intro base32_mono [OF l [OF i] _ c [OF i]]) simp
  have nonneg: "0 \<le> base32 (?l m) (cats self ! m)" if "m < d" for m
    by (rule base32_bounds(1) [OF l [OF that] c [OF that]])
  define B0 where "B0 = mk (replicate (length (shape (lengthscale self)) - 1) 1)
                 (\<lambda>idx :: nat list. base32 (?l i) (cats self ! i))"
  define B0' where "B0' = mk (replicate (length (shape (lengthscale self')) - 1) 1)
                 (\<lambda>idx :: nat list. base32 (?l' i) (cats self ! i))"
  have b: "base_tensor32 self i = Inr B0"
    unfolding B0_def using i len by (intro base_tensor32_value [OF ls]) simp_all
  have b': "base_tensor32 self' i = Inr B0'"
    using base_tensor32_value [OF ls', of i] i len same_cats by (simp add: B0'_def)
  have eB: "entry B0 idx = base32 (?l i) (cats self ! i)" if "inside idx (shape B0)" for idx
    using that by (simp add: B0_def entry_mk)
  have eB': "entry B0' idx = base32 (?l' i) (cats self ! i)" if "inside idx (shape B0')" for idx
    using that by (simp add: B0'_def entry_mk)
  have first: "\<exists>B B'. base_tensor32 self i = Inr B \<and> base_tensor32 self' i = Inr B' \<and>
            (\<forall>idx idx'. inside idx (shape B) \<and> inside idx' (shape B') \<longrightarrow>
               entry B idx = base32 (?l i) (cats self ! i) \<and>
               entry B' idx' = base32 (?l' i) (cats self ! i) \<and>
               entry B idx \<le> entry B' idx')"
    using b b' eB eB' base by (intro exI [of _ B0] exI [of _ B0']) simp
  let ?f = "\<lambda>idx m. factor32 self x1 x2 m idx" and ?f' = "\<lambda>idx m. factor32 self' x1 x2 m idx"
  define K0 where "K0 = mk [n1, n2] (\<lambda>idx. fprod32 (?f idx) d)"
  define K0' where "K0' = mk [n1, n2] (\<lambda>idx. fprod32 (?f' idx) d)"
  have fw: "forward32 self x1 x2 False False = Inr (Tensor K0)"
    unfolding K0_def using i len by (intro forward32_full_2d [OF ls x1 x2]) simp_all
  have fw': "forward32 self' x1 x2 False False = Inr (Tensor K0')"
    unfolding K0'_def using i len same_cats by (intro forward32_full_2d [OF ls' x1 x2]) simp_all
  have sK: "shape K0 = [n1, n2]" "shape K0' = [n1, n2]"
    by (simp_all add: K0_def K0'_def)
  have eK: "entry K0 [j, k] = fprod32 (?f [j, k]) d" if "j < n1" "k < n2" for j k
    unfolding K0_def by (rule entry_mk) (simp add: that)
  have eK': "entry K0' [j, k] = fprod32 (?f' [j, k]) d" if "j < n1" "k < n2" for j k
    unfolding K0'_def by (rule entry_mk) (simp add: that)
  have fac: "0 \<le> ?f idx m \<and> ?f idx m \<le> ?f' idx m" if m: "m < d" for m idx
  proof (cases "m = i")
    case True
    have "base32 (?l i) (cats self ! i) ^ n \<le> base32 (?l' i) (cats self ! i) ^ n" for n :: nat
      using base nonneg [OF i] by (rule power_mono)
    then show ?thesis
      using nonneg [OF i] by (simp add: factor32_def True same_cats)
  next
    case False
    with others m have "?l' m = ?l m"
      by simp
    then show ?thesis
      using nonneg [OF m] by (simp add: factor32_def same_cats)
  qed
  have le: "entry K0 [j, k] \<le> entry K0' [j, k]" if "j < n1" "k < n2" for j k
  proof -
    have "0 \<le> fprod32 (?f [j, k]) d \<and> fprod32 (?f [j, k]) d \<le> fprod32 (?f' [j, k]) d"
      by (rule fprod32_mono) (rule fac)
    then show ?thesis
      by (simp only: eK [OF that] eK' [OF that])
  qed
  have one: "entry K0 [j, k] = 1 \<and> entry K0' [j, k] = 1"
    if jk: "j < n1" "k < n2" and eq: "\<forall>m<d. entry x1 [j, m] = entry x2 [k, m]" for j k
  proof
    have "fprod32 (?f [j, k]) d = 1"
      by (rule fprod32_ones) (simp add: factor32_def eq)
    then show "entry K0 [j, k] = 1"
      by (simp only: eK [OF jk])
    have "fprod32 (?f' [j, k]) d = 1"
      by (rule fprod32_ones) (simp add: factor32_def eq)
    then show "entry K0' [j, k] = 1"
      by (simp only: eK' [OF jk])
  qed
  have second: "\<exists>K K'. forward32 self x1 x2 False False = Inr (Tensor K) \<and>
                 forward32 self' x1 x2 False False = Inr (Tensor K') \<and>
                 shape K = [n1, n2] \<and> shape K' = [n1, n2] \<and>
            (\<forall>j<n1. \<forall>k<n2. entry K [j, k] \<le> entry K' [j, k]) \<and>
            (\<forall>j<n1. \<forall>k<n2. (\<forall>m<d. entry x1 [j, m] = entry x2 [k, m]) \<longrightarrow>
                entry K [j, k] = 1 \<and> entry K' [j, k] = 1)"
    using fw fw' sK le one by blast
  from first second show ?thesis
    by (rule conjI)
qed

theorem lengthscale_monotone_float32_witness:
  "(\<exists>B B'. base_tensor32 \<lparr>cats = [2], lengthscale = tensor1 [1]\<rparr> 0 = Inr B \<and>
           base_tensor32 \<lparr>cats = [2], lengthscale = tensor1 [2]\<rparr> 0 = Inr B' \<and>
           entry B [] = base32 1 2 \<and> entry B' [] = base32 2 2 \<and> entry B [] \<le> entry B' []) \<and>
   (\<exists>K K'. forward32 \<lparr>cats = [2], lengthscale = tensor1 [1]\<rparr>
               (tensor2 [[0 :: int], [1]]) (tensor2 [[1]]) False False = Inr (Tensor K) \<and>
            forward32 \<lparr>cats = [2], lengthscale = tensor1 [2]\<rparr>
               (tensor2 [[0 :: int], [1]]) (tensor2 [[1]]) False False = Inr (Tensor K') \<and>
            entry K [0, 0] \<le> entry K' [0, 0] \<and> entry K [1, 0] = 1 \<and> entry K' [1, 0] = 1)"
proof -
  let ?k = "\<lparr>cats = [2], lengthscale = tensor1 [1]\<rparr>"
  let ?k' = "\<lparr>cats = [2], lengthscale = tensor1 [2]\<rparr>"
  let ?x1 = "tensor2 [[0 :: int], [1]]" and ?x2 = "tensor2 [[1 :: int]]"
  have th: "(\<exists>B B'. base_tensor32 ?k 0 = Inr B \<and> base_tensor32 ?k' 0 = Inr B' \<and>
            (\<forall>idx idx'. inside idx (shape B) \<and> inside idx' (shape B') \<longrightarrow>
               entry B idx = base32 (lengthscale_entry (lengthscale ?k) 0) (cats ?k ! 0) \<and>
               entry B' idx' = base32 (lengthscale_entry (lengthscale ?k') 0) (cats ?k ! 0) \<and>
               entry B idx \<le> entry B' idx')) \<and>
         (\<exists>K K'. forward32 ?k ?x1 ?x2 False False = Inr (Tensor K) \<and>
                 forward32 ?k' ?x1 ?x2 False False = Inr (Tensor K') \<and>
                 shape K = [2, 1] \<and> shape K' = [2, 1] \<and>
            (\<forall>j<2. \<forall>k<1. entry K [j, k] \<le> entry K' [j, k]) \<and>
            (\<forall>j<2. \<forall>k<1. (\<forall>m<1. entry ?x1 [j, m] = entry ?x2 [k, m]) \<longrightarrow>
                entry K [j, k] = 1 \<and> entry K' [j, k] = 1))"
    by (rule lengthscale_monotone_float32 [where d = 1])
      (simp_all add: tensor1_def tensor2_def lengthscale_entry_def entry_def)
  from th [THEN conjunct1] obtain B B'
    where B: "base_tensor32 ?k 0 = Inr B" and B': "base_tensor32 ?k' 0 = Inr B'"
      and eB: "\<forall>idx idx'. inside idx (shape B) \<and> inside idx' (shape B') \<longrightarrow>
               entry B idx = base32 (lengthscale_entry (lengthscale ?k) 0) (cats ?k ! 0) \<and>
               entry B' idx' = base32 (lengthscale_entry (lengthscale ?k') 0) (cats ?k ! 0) \<and>
               entry B idx \<le> entry B' idx'"
    by blast
  have sB: "shape B = []" "shape B' = []"
    using B B' by (auto simp: base_tensor32_single)
  have "entry B [] = base32 (lengthscale_entry (lengthscale ?k) 0) (cats ?k ! 0) \<and>
               entry B' [] = base32 (lengthscale_entry (lengthscale ?k') 0) (cats ?k ! 0) \<and>
               entry B [] \<le> entry B' []"
    by (rule eB [rule_format]) (simp add: sB)
  then have first: "entry B [] = base32 1 2 \<and> entry B' [] = base32 2 2 \<and> entry B [] \<le> entry B' []"
    by (simp add: tensor1_def lengthscale_entry_def entry_def)
  from th [THEN conjunct2] obtain K K'
    where K: "forward32 ?k ?x1 ?x2 False False = Inr (Tensor K)"
      and K': "forward32 ?k' ?x1 ?x2 False False = Inr (Tensor K')"
      and le: "\<forall>j<2. \<forall>k<1. entry K [j, k] \<le> entry K' [j, k]"
      and one: "\<forall>j<2. \<forall>k<1. (\<forall>m<1. entry ?x1 [j, m] = entry ?x2 [k, m]) \<longrightarrow>
                entry K [j, k] = 1 \<and> entry K' [j, k] = 1"
    by blast
  have le00: "entry K [0, 0] \<le> entry K' [0, 0]"
    by (rule le [rule_format]) simp_all
  have "entry K [1, 0] = 1 \<and> entry K' [1, 0] = 1"
    by (rule one [rule_format]) (simp_all add: tensor2_def entry_def)
  with B B' first K K' le00 show ?thesis
    by blast
qed

text \<open>
  C4, as the claim states it, fails: it says that the larger lengthscale gives the smaller
  \<open>base_i\<close>. With \<open>cats = [2]\<close> and the points \<open>[0]\<close> and \<open>[1]\<close>, the lengthscale 1 gives
  the factor and the kernel value \<open>base32 1 2\<close>, at most 13/16, and the lengthscale 2 gives
  \<open>base32 2 2\<close>, at least 7/8.
\<close>

theorem lengthscale_monotone_float32_counterexample:
  "base_tensor32 \<lparr>cats = [2], lengthscale = tensor1 [1]\<rparr> 0
     = Inr \<lparr>shape = [], data = Leaf (base32 1 2)\<rparr> \<and>
   base_tensor32 \<lparr>cats = [2], lengthscale = tensor1 [2]\<rparr> 0
     = Inr \<lparr>shape = [], data = Leaf (base32 2 2)\<rparr> \<and>
   matrix_entry (forward32 \<lparr>cats = [2], lengthscale = tensor1 [1]\<rparr>
      (tensor2 [[0 :: int]]) (tensor2 [[1]]) False False) 0 0 = Some (base32 1 2) \<and>
   matrix_entry (forward32 \<lparr>cats = [2], lengthscale = tensor1 [2]\<rparr>
      (tensor2 [[0 :: int]]) (tensor2 [[1]]) False False) 0 0 = Some (base32 2 2) \<and>
   base32 1 2 < base32 2 2"
proof -
  have "base32 1 2 \<le> 13 / 16"
    by (rule base32_one_two_upper)
  also have "(13 / 16 :: real) < 7 / 8"
    by simp
  also have "7 / 8 \<le> base32 2 2"
    by (rule base32_two_two_lower)
  finally have "base32 1 2 < base32 2 2" .
  then show ?thesis
    by (simp only: base_tensor32_single forward32_single simp_thms)
qed

end
